theory Spec2Isabelle
  imports Complex_Main "HOL-Library.Log_Nat"
begin

section \<open>The launch routine of the Lambda renderer\<close>

text \<open>
  A shallow embedding of \<^verbatim>\<open>packages/lambda/src/functions/launch.ts\<close>.
  The launch routine is effectful: it writes objects to the bucket, invokes other
  Lambda functions and removes local files. Each such effect is an event of a trace,
  an exception is the left summand of the result, and what the collaborators outside
  this file answer (validators, the bucket, the Lambda client, the clock) is read
  from a record of outcomes, so that a theorem quantified over that record speaks
  about every run.
\<close>

subsection \<open>Data of a launch\<close>

text \<open>
  The request's discriminator \<^verbatim>\<open>params.type\<close>. The enumeration lives in
  \<^verbatim>\<open>shared/constants\<close>; the launch routine names three of its members, the rest
  are \<open>otherRoutine\<close>.
\<close>

datatype LambdaRoutines = launch | renderer | fire | otherRoutine

datatype Privacy = Public | Private

text \<open>
  The fields of the composition and of the request that the routine branches on or
  copies into what it writes. The rendering options it only hands on unchanged
  (\<^verbatim>\<open>inputProps\<close>, \<^verbatim>\<open>imageFormat\<close>, \<^verbatim>\<open>codec\<close>, \<^verbatim>\<open>crf\<close>,
  \<^verbatim>\<open>envVariables\<close>, \<^verbatim>\<open>pixelFormat\<close>, \<^verbatim>\<open>proResProfile\<close>,
  \<^verbatim>\<open>quality\<close>) are one field. \<^verbatim>\<open>params.type\<close> is the field \<open>routine\<close>;
  \<^verbatim>\<open>framesPerLambda\<close> is a number or \<^verbatim>\<open>null\<close>.
\<close>

record VideoConfig =
  compId :: string
  durationInFrames :: int
  fps :: int
  height :: int
  width :: int

record LaunchParams =
  routine :: LambdaRoutines
  framesPerLambda :: "int option"
  renderId :: string
  bucketName :: string
  serveUrl :: string
  composition :: string
  maxRetries :: int
  privacy :: Privacy
  enableChunkOptimization :: bool
  saveBrowserLogs :: bool
  renderOptions :: string

text \<open>
  The payload of one renderer invocation (the object built inside
  \<^verbatim>\<open>chunks.map\<close>). Its field \<^verbatim>\<open>chunk\<close> is \<open>chunkIndex\<close> here, since
  \<open>chunk\<close> names the list-splitting function below.
\<close>

record RenderPayload =
  payloadRoutine :: LambdaRoutines
  frameRange :: "int \<times> int"
  chunkIndex :: int
  payloadServeUrl :: string
  payloadComposition :: string
  payloadVideo :: VideoConfig
  payloadBucketName :: string
  retriesLeft :: int
  payloadRenderId :: string
  payloadOptions :: string
  payloadPrivacy :: Privacy
  payloadSaveBrowserLogs :: bool
  payloadAttempt :: int

record RenderMetadata =
  startedDate :: int
  videoConfig :: VideoConfig
  totalChunks :: nat
  estimatedTotalLambdaInvokations :: nat
  estimatedRenderLambdaInvokations :: nat
  compositionId :: string
  usesOptimizationProfile :: bool
  metaFramesPerLambda :: int
  metaRenderId :: string

record ErrorInfo =
  errorChunk :: "nat option"
  errorFrame :: "nat option"
  isFatal :: bool
  stack :: string
  tmpDir :: "string option"
  errorType :: string
  attempt :: nat
  totalAttempts :: nat
  willRetry :: bool

record EncodingProgress =
  framesEncoded :: int
  totalFrames :: int
  doneIn :: "int option"
  timeToInvoke :: "int option"

subsection \<open>Effects, errors and outcomes\<close>

text \<open>
  The keys \<^verbatim>\<open>renderMetadataKey(renderId)\<close>, \<^verbatim>\<open>encodingProgressKey(renderId)\<close>
  and \<^verbatim>\<open>outName(renderId, codec)\<close> are three different objects of one render.
\<close>

datatype S3Key = RenderMetadataKey string | EncodingProgressKey string | OutName string

datatype Body = MetadataBody RenderMetadata | ProgressBody EncodingProgress | OutfileBody

text \<open>
  The effects of a launch, in the order the routine causes them.
  \<open>WriteFile\<close> is a call of \<^verbatim>\<open>lambdaWriteFile\<close> with its key, privacy and body;
  \<open>WriteFileDone\<close> is the point where an \<^verbatim>\<open>await\<close> has seen that write
  fulfilled. \<open>InvokeFire i g\<close> is the \<^verbatim>\<open>InvokeCommand\<close> sent for the group
  \<open>g\<close> at position \<open>i\<close> of \<^verbatim>\<open>payloadChunks\<close>. The other events are
  calls of the helpers of the same names and of \<^verbatim>\<open>fs.promises.rm(outfile)\<close>.
\<close>

datatype Event =
    WriteFile S3Key Privacy Body
  | WriteFileDone S3Key
  | InvokeFire nat "RenderPayload list"
  | WriteLambdaError ErrorInfo
  | WriteOptimization
  | CleanupFiles
  | WritePostRenderData
  | RmOutfile

text \<open>
  The places where a collaborator can throw or reject, and the errors of a launch:
  the two \<^verbatim>\<open>throw new Error\<close> of the routine itself, and a failure of a
  collaborator.
\<close>

datatype Stage =
    ValidateFramesPerLambda | GetBrowserInstance | GetOptimization | ValidateComposition
  | ValidateDurationInFrames | ValidateFps | ValidateHeight | ValidateWidth | ValidatePrivacy
  | WriteRenderMetadata | SendFire nat | ConcatVideosS3 | WriteOutput
  | CollectChunkInformation | WriteOptimizationFile | LambdaLs | InspectErrors
  | DeleteChunks | WriteFinalProgress | WritePostRenderDataFile | CleanupChunks
  | RemoveOutfile | WriteErrorFile

datatype Error = ExpectedLaunchType | FramesPerLambdaRequired | Failed Stage

text \<open>
  One call of \<^verbatim>\<open>onProgress\<close> by the concatenation: the frame count and start
  time it passes, the clock at that moment, and the stack of the error with which the
  snapshot write of this call rejects, if it does.
\<close>

record Observation =
  obsFrames :: int
  obsStart :: int
  obsNow :: int
  obsWriteError :: "string option"

text \<open>
  What the collaborators answer in one run. A boolean says that the call returns or that
  its promise is fulfilled; \<open>compositionResult\<close> and \<open>concatResult\<close> are \<open>None\<close>
  when \<^verbatim>\<open>validateComposition\<close> and \<^verbatim>\<open>concatVideosS3\<close> reject, and
  otherwise hold the composition and \<^verbatim>\<open>encodingStart\<close>. \<open>plannedChunks\<close> and
  \<open>plannedWithOptimization\<close> are what \<^verbatim>\<open>planFrameRanges\<close> returns: each
  chunk is an array object, here its identity (a number) and the frame range it holds,
  \<open>observations\<close> the calls of the progress callback made by the concatenation, the
  clocks are the values of \<^verbatim>\<open>Date.now()\<close>.
\<close>

record Outcomes =
  browserInstanceOk :: bool
  optimizationOk :: bool
  compositionResult :: "VideoConfig option"
  durationValid :: bool
  fpsValid :: bool
  heightValid :: bool
  widthValid :: bool
  privacyValid :: bool
  plannedChunks :: "(nat \<times> int \<times> int) list"
  plannedWithOptimization :: bool
  clockAtPlan :: int
  renderMetadataWritten :: bool
  fireSubmitted :: "nat \<Rightarrow> bool"
  observations :: "Observation list"
  concatResult :: "int option"
  clockAfterConcat :: int
  outputWritten :: bool
  chunkDataCollected :: bool
  optimizedProfileValid :: bool
  optimizationWritten :: bool
  listingOk :: bool
  timeToInvokeLambdas :: "int option"
  finalProgressWritten :: bool
  errorsInspected :: bool
  filesDeleted :: bool
  postRenderDataWritten :: bool
  chunksCleanedUp :: bool
  outfileRemoved :: bool
  errorStack :: "Error \<Rightarrow> string"
  tmpDirState :: "string \<Rightarrow> string option"
  lambdaErrorWritten :: bool

text \<open>
  A run is the trace of its effects and its result. \<open>andThen\<close> is the semicolon: the
  rest runs only after a step that did not throw, and the traces are joined.
\<close>

type_synonym 'a run = "Event list \<times> (Error + 'a)"

definition ret :: "'a \<Rightarrow> 'a run" where
  "ret x = ([], Inr x)"

definition throw :: "Error \<Rightarrow> 'a run" where
  "throw e = ([], Inl e)"

definition emit :: "Event \<Rightarrow> unit run" where
  "emit ev = ([ev], Inr ())"

definition await :: "bool \<Rightarrow> Stage \<Rightarrow> unit run" where
  "await fulfilled s = (if fulfilled then ret () else throw (Failed s))"

definition andThen :: "'a run \<Rightarrow> ('a \<Rightarrow> 'b run) \<Rightarrow> 'b run" where
  "andThen m f =
     (case m of
        (t, Inl e) \<Rightarrow> (t, Inl e)
      | (t, Inr x) \<Rightarrow> (case f x of (t', r) \<Rightarrow> (t @ t', r)))"

subsection \<open>Planning and fan-out\<close>

text \<open>
  \<^verbatim>\<open>Math.round(Math.sqrt(chunks.length))\<close>. The nearest integer to the square
  root of \<open>n\<close> is the least \<open>k\<close> with \<open>n \<le> k\<^sup>2 + k\<close>, since
  \<open>(k + 1/2)\<^sup>2 = k\<^sup>2 + k + 1/4\<close>; the search below finds it by counting up.
\<close>

function roundSqrtFrom :: "nat \<Rightarrow> nat \<Rightarrow> nat" where
  "roundSqrtFrom n k = (if n \<le> k * k + k then k else roundSqrtFrom n (Suc k))"
  by pat_completeness auto
termination
  by (relation "measure (\<lambda>(n, k). n - k)") auto

declare roundSqrtFrom.simps [simp del]

definition invokers :: "nat \<Rightarrow> nat" where
  "invokers chunksLength = roundSqrtFrom chunksLength 0"

text \<open>
  Modelled from the spec: \<^verbatim>\<open>shared/chunk.ts\<close> is not among the sources. The
  spec (4.3) has the dispatcher "partition the payload list into \<open>invokers\<close> contiguous
  groups", every group non-empty when there are at least as many payloads as groups, and
  its scenario A splits five payloads for two invokers into groups of sizes 3 and 2. So
  \<open>chunk xs n\<close> cuts \<open>xs\<close> into \<open>n\<close> consecutive groups, each taking its even share
  (rounded up) of what is left.
\<close>

fun chunk :: "'a list \<Rightarrow> nat \<Rightarrow> 'a list list" where
  "chunk xs 0 = []"
| "chunk xs (Suc k) =
     (let size = (length xs + k) div Suc k
      in take size xs # chunk (drop size xs) k)"

text \<open>
  \<^verbatim>\<open>chunks.slice().sort((a, b) => a[0] - b[0])\<close>: a stable sort of the chunk
  objects by the first frame of their ranges.
\<close>

definition sortedChunks :: "(nat \<times> int \<times> int) list \<Rightarrow> (nat \<times> int \<times> int) list" where
  "sortedChunks chunks = sort_key (\<lambda>c. fst (snd c)) chunks"

text \<open>
  \<^verbatim>\<open>Array.prototype.indexOf\<close>: the first position holding the element, \<open>-1\<close>
  when there is none. On arrays of objects it compares identities, so the launch
  applies it to the identities of the chunk objects.
\<close>

fun indexOf :: "'a list \<Rightarrow> 'a \<Rightarrow> int" where
  "indexOf [] x = - 1"
| "indexOf (y # ys) x =
     (if y = x then 0 else (let i = indexOf ys x in if i < 0 then - 1 else i + 1))"

text \<open>
  The payloads built by \<^verbatim>\<open>chunks.map\<close>, one per chunk and in the order of
  \<^verbatim>\<open>chunks\<close>. The composition \<^verbatim>\<open>comp\<close> of the source is \<open>video\<close> here.
\<close>

definition lambdaPayloads ::
  "LaunchParams \<Rightarrow> VideoConfig \<Rightarrow> (nat \<times> int \<times> int) list \<Rightarrow> RenderPayload list"
where
  "lambdaPayloads params video chunks =
     map (\<lambda>chunkPayload.
            \<lparr>payloadRoutine = renderer,
             frameRange = snd chunkPayload,
             chunkIndex = indexOf (map fst (sortedChunks chunks)) (fst chunkPayload),
             payloadServeUrl = serveUrl params,
             payloadComposition = composition params,
             payloadVideo = video,
             payloadBucketName = bucketName params,
             retriesLeft = maxRetries params,
             payloadRenderId = renderId params,
             payloadOptions = renderOptions params,
             payloadPrivacy = privacy params,
             payloadSaveBrowserLogs = saveBrowserLogs params,
             payloadAttempt = 1\<rparr>)
         chunks"

definition renderMetadataOf ::
  "Outcomes \<Rightarrow> LaunchParams \<Rightarrow> int \<Rightarrow> VideoConfig \<Rightarrow> (nat \<times> int \<times> int) list
    \<Rightarrow> RenderMetadata"
where
  "renderMetadataOf env params perLambda video chunks =
     \<lparr>startedDate = clockAtPlan env,
      videoConfig = video,
      totalChunks = length chunks,
      estimatedTotalLambdaInvokations = sum_list [length chunks, invokers (length chunks)],
      estimatedRenderLambdaInvokations = length chunks,
      compositionId = compId video,
      usesOptimizationProfile = plannedWithOptimization env,
      metaFramesPerLambda = perLambda,
      metaRenderId = renderId params\<rparr>"

subsection \<open>Double-precision arithmetic\<close>

text \<open>
  The numbers of the source are IEEE 754 doubles, and the progress reporter divides,
  subtracts and compares them. A double is a rational with a significand of 53 bits;
  an arithmetic operation yields the double nearest to the exact result, a tie going to
  the even significand. \<open>toDouble\<close> is that rounding: \<open>exponentOf x\<close> is the \<open>e\<close>
  with \<open>2\<^sup>e \<le> x < 2\<^sup>e\<^sup>+\<^sup>1\<close>, the unit in the last place is \<open>2\<^sup>e\<^sup>-\<^sup>5\<^sup>2\<close>, and the
  significand is rounded half to even. The exponent is not bounded here, so the
  rounding is that of the hardware for every result that neither overflows nor is
  subnormal; the quotients and differences of the progress reporter are of that kind
  whenever the frame counts are integers below \<open>2\<^sup>5\<^sup>3\<close>, which a double holds exactly.
\<close>

definition roundHalfEven :: "rat \<Rightarrow> int" where
  "roundHalfEven q =
     (let n = \<lfloor>q\<rfloor>; r = q - of_int n
      in if r < 1 / 2 then n
         else if 1 / 2 < r then n + 1
         else if even n then n else n + 1)"

definition exponentOf :: "rat \<Rightarrow> int" where
  "exponentOf x =
     (let k = bitlen (fst (quotient_of x)) - bitlen (snd (quotient_of x))
      in if 2 powi k \<le> x then k else k - 1)"

definition toDouble :: "rat \<Rightarrow> rat" where
  "toDouble x =
     (if x = 0 then 0
      else let ulp = 2 powi (exponentOf \<bar>x\<bar> - 52)
           in sgn x * of_int (roundHalfEven (\<bar>x\<bar> / ulp)) * ulp)"

subsection \<open>The progress reporter\<close>

text \<open>
  The callback \<^verbatim>\<open>onProgress\<close> closes over two mutable variables,
  \<^verbatim>\<open>lastProgressUploaded\<close> and \<^verbatim>\<open>encodingStop\<close>; here they are a state
  that is passed in and returned. \<open>relativeProgress\<close> is the double
  \<^verbatim>\<open>framesEncoded / comp.durationInFrames\<close>, the difference to the last uploaded
  fraction is a double again, and it is compared with the double \<^verbatim>\<open>0.1\<close>. The
  duration has passed \<^verbatim>\<open>validateDurationInFrames\<close> when the callback is built, so
  the theorems about the callback take it to be positive.
\<close>

record ProgressState =
  lastProgressUploaded :: rat
  encodingStop :: "int option"

definition initialProgress :: ProgressState where
  "initialProgress = \<lparr>lastProgressUploaded = 0, encodingStop = None\<rparr>"

definition relativeProgress :: "int \<Rightarrow> int \<Rightarrow> rat" where
  "relativeProgress frames duration = toDouble (of_int frames / of_int duration)"

text \<open>
  \<^verbatim>\<open>encodingStop ? encodingStop - start : null\<close>: a number is truthy unless it
  is zero.
\<close>

definition doneInOf :: "int option \<Rightarrow> int \<Rightarrow> int option" where
  "doneInOf stop start =
     (case stop of
        None \<Rightarrow> None
      | Some t \<Rightarrow> if t = 0 then None else Some (t - start))"

text \<open>
  The record written by the \<^verbatim>\<open>catch\<close> of a failed snapshot write. That
  \<^verbatim>\<open>writeLambdaError\<close> is neither awaited nor caught, so it ends no run. The
  trace lists it directly after the write it belongs to; the routine does not wait for
  either, so it may in fact happen at any later moment.
\<close>

definition progressErrorInfo :: "string \<Rightarrow> ErrorInfo" where
  "progressErrorInfo errStack =
     \<lparr>errorChunk = None,
      errorFrame = None,
      isFatal = False,
      stack = ''Could not upload stitching progress '' @ errStack,
      tmpDir = None,
      errorType = ''stitcher'',
      attempt = 1,
      totalAttempts = 1,
      willRetry = False\<rparr>"

text \<open>
  One call of the callback: the new state and the effects of the call, none when the
  early \<^verbatim>\<open>return\<close> is taken.
\<close>

definition onProgress ::
  "LaunchParams \<Rightarrow> VideoConfig \<Rightarrow> ProgressState \<Rightarrow> Observation \<Rightarrow> ProgressState \<times> Event list"
where
  "onProgress params video st ob =
     (let rel = relativeProgress (obsFrames ob) (durationInFrames video);
          deltaSinceLastProgressUploaded = toDouble (rel - lastProgressUploaded st);
          st1 = (if rel = 1 then st\<lparr>encodingStop := Some (obsNow ob)\<rparr> else st)
      in if deltaSinceLastProgressUploaded < toDouble (1 / 10) then (st1, [])
         else (st1\<lparr>lastProgressUploaded := rel\<rparr>,
               WriteFile (EncodingProgressKey (renderId params)) Private
                 (ProgressBody
                    \<lparr>framesEncoded = obsFrames ob,
                     totalFrames = durationInFrames video,
                     doneIn = doneInOf (encodingStop st1) (obsStart ob),
                     timeToInvoke = None\<rparr>)
               # (case obsWriteError ob of
                    None \<Rightarrow> []
                  | Some errStack \<Rightarrow> [WriteLambdaError (progressErrorInfo errStack)])))"

text \<open>The calls of the callback that one concatenation makes, in order.\<close>

fun progressLoop ::
  "LaunchParams \<Rightarrow> VideoConfig \<Rightarrow> ProgressState \<Rightarrow> Observation list
    \<Rightarrow> ProgressState \<times> Event list"
where
  "progressLoop params video st [] = (st, [])"
| "progressLoop params video st (ob # obs) =
     (case onProgress params video st ob of
        (st1, evs) \<Rightarrow>
          (case progressLoop params video st1 obs of
             (st2, evs') \<Rightarrow> (st2, evs @ evs')))"

text \<open>
  The progress snapshots among the events of a trace, and the fraction
  \<^verbatim>\<open>framesEncoded / totalFrames\<close> of a snapshot, as the code computes it.
\<close>

fun persisted :: "Event list \<Rightarrow> EncodingProgress list" where
  "persisted [] = []"
| "persisted (WriteFile k p (ProgressBody ep) # evs) = ep # persisted evs"
| "persisted (ev # evs) = persisted evs"

definition persistedRelative :: "EncodingProgress \<Rightarrow> rat" where
  "persistedRelative ep = relativeProgress (framesEncoded ep) (totalFrames ep)"

subsection \<open>The launch\<close>

text \<open>
  Modelled from the spec: \<^verbatim>\<open>api/validate-frames-per-lambda.ts\<close> is not among
  the sources. The spec (4.1, 7) has a launch fail with a validation error when the
  frames per chunk are below 1.
\<close>

definition validateFramesPerLambda :: "int \<Rightarrow> unit run" where
  "validateFramesPerLambda perLambda =
     (if perLambda < 1 then throw (Failed ValidateFramesPerLambda) else ret ())"

text \<open>What the first part of the routine (lines 53 to 155) computes before any effect.\<close>

record Plan =
  planVideo :: VideoConfig
  planFramesPerLambda :: int
  chunkCount :: int
  planChunks :: "(nat \<times> int \<times> int) list"
  planInvokers :: nat
  planPayloads :: "RenderPayload list"
  planMetadata :: RenderMetadata

text \<open>
  Lines 53 to 155: the guards and validators, then the plan.
  \<^verbatim>\<open>!params.framesPerLambda\<close> holds for \<^verbatim>\<open>null\<close> and for \<open>0\<close>. The two
  promises joined by \<^verbatim>\<open>Promise.all\<close> only read; when both reject, the error
  reported is taken to be the first one's.
\<close>

definition planLaunch :: "Outcomes \<Rightarrow> LaunchParams \<Rightarrow> Plan run" where
  "planLaunch env params =
     (if routine params \<noteq> launch then throw ExpectedLaunchType
      else case framesPerLambda params of
        None \<Rightarrow> throw FramesPerLambdaRequired
      | Some perLambda \<Rightarrow>
        if perLambda = 0 then throw FramesPerLambdaRequired
        else
          andThen (validateFramesPerLambda perLambda) (\<lambda>_.
          andThen (await (browserInstanceOk env) GetBrowserInstance) (\<lambda>_.
          andThen (await (optimizationOk env) GetOptimization) (\<lambda>_.
          case compositionResult env of
            None \<Rightarrow> throw (Failed ValidateComposition)
          | Some video \<Rightarrow>
              andThen (await (durationValid env) ValidateDurationInFrames) (\<lambda>_.
              andThen (await (fpsValid env) ValidateFps) (\<lambda>_.
              andThen (await (heightValid env) ValidateHeight) (\<lambda>_.
              andThen (await (widthValid env) ValidateWidth) (\<lambda>_.
              andThen (await (privacyValid env) ValidatePrivacy) (\<lambda>_.
              let chunks = plannedChunks env in
              ret \<lparr>planVideo = video,
                   planFramesPerLambda = perLambda,
                   chunkCount =
                     \<lceil>(of_int (durationInFrames video) :: rat) / of_int perLambda\<rceil>,
                   planChunks = chunks,
                   planInvokers = invokers (length chunks),
                   planPayloads = lambdaPayloads params video chunks,
                   planMetadata = renderMetadataOf env params perLambda video chunks\<rparr>)))))))))"

text \<open>
  The \<^verbatim>\<open>Promise.all\<close> over \<^verbatim>\<open>payloadChunks.map\<close> (lines 167 to 186): the
  callback runs for every group up to its \<^verbatim>\<open>await\<close>, so every
  \<^verbatim>\<open>InvokeCommand\<close> is sent; the join rejects when a submission does (the
  lowest-numbered one that fails is taken as the error).
\<close>

definition fireAll :: "Outcomes \<Rightarrow> RenderPayload list list \<Rightarrow> unit run" where
  "fireAll env payloadChunks =
     (map (\<lambda>(index, payloads). InvokeFire index payloads) (enumerate 0 payloadChunks),
      case find (\<lambda>index. \<not> fireSubmitted env index) [0 ..< length payloadChunks] of
        None \<Rightarrow> Inr ()
      | Some index \<Rightarrow> Inl (Failed (SendFire index)))"

text \<open>Lines 157 to 187: the render metadata is written and awaited, then the fan-out.\<close>

definition dispatch :: "Outcomes \<Rightarrow> LaunchParams \<Rightarrow> Plan \<Rightarrow> unit run" where
  "dispatch env params plan =
     andThen (emit (WriteFile (RenderMetadataKey (renderId params)) Private
                      (MetadataBody (planMetadata plan)))) (\<lambda>_.
     andThen (await (renderMetadataWritten env) WriteRenderMetadata) (\<lambda>_.
     andThen (emit (WriteFileDone (RenderMetadataKey (renderId params)))) (\<lambda>_.
     fireAll env (chunk (planPayloads plan) (planInvokers plan)))))"

text \<open>
  Lines 189 to 253: the concatenation calls the progress callback as often as it
  likes and then resolves or rejects; \<^verbatim>\<open>if (!encodingStop)\<close> then fills in the
  stop time. The result is \<^verbatim>\<open>encodingStop\<close> and \<^verbatim>\<open>encodingStart\<close>.
\<close>

definition stitch :: "Outcomes \<Rightarrow> LaunchParams \<Rightarrow> Plan \<Rightarrow> (int \<times> int) run" where
  "stitch env params plan =
     (case progressLoop params (planVideo plan) initialProgress (observations env) of
        (st, evs) \<Rightarrow>
          (evs,
           case concatResult env of
             None \<Rightarrow> Inl (Failed ConcatVideosS3)
           | Some encodingStart \<Rightarrow>
               Inr (case encodingStop st of
                      None \<Rightarrow> clockAfterConcat env
                    | Some t \<Rightarrow> if t = 0 then clockAfterConcat env else t,
                    encodingStart)))"

definition finalEncodingProgress :: "Outcomes \<Rightarrow> Plan \<Rightarrow> int \<Rightarrow> int \<Rightarrow> EncodingProgress" where
  "finalEncodingProgress env plan stop encodingStart =
     \<lparr>framesEncoded = durationInFrames (planVideo plan),
      totalFrames = durationInFrames (planVideo plan),
      doneIn = doneInOf (Some stop) encodingStart,
      timeToInvoke = timeToInvokeLambdas env\<rparr>"

text \<open>
  Lines 255 to 367. \<open>chunkPromOk\<close> says whether \<^verbatim>\<open>chunkProm\<close> is fulfilled. The
  final progress write, \<^verbatim>\<open>inspectErrors\<close> and \<^verbatim>\<open>cleanupFiles\<close> are started
  before any of them is awaited.
\<close>

definition finalize :: "Outcomes \<Rightarrow> LaunchParams \<Rightarrow> Plan \<Rightarrow> int \<Rightarrow> int \<Rightarrow> unit run" where
  "finalize env params plan stop encodingStart =
     andThen (emit (WriteFile (OutName (renderId params)) (privacy params) OutfileBody)) (\<lambda>_.
     andThen (await (outputWritten env) WriteOutput) (\<lambda>_.
     andThen (emit (WriteFileDone (OutName (renderId params)))) (\<lambda>_.
     andThen
       (if enableChunkOptimization params
        then andThen (await (chunkDataCollected env) CollectChunkInformation) (\<lambda>_.
               if optimizedProfileValid env
               then andThen (emit WriteOptimization) (\<lambda>_. ret (optimizationWritten env))
               else ret True)
        else ret True) (\<lambda>chunkPromOk.
     andThen (await chunkPromOk WriteOptimizationFile) (\<lambda>_.
     andThen (await (listingOk env) LambdaLs) (\<lambda>_.
     andThen (emit (WriteFile (EncodingProgressKey (renderId params)) Private
                      (ProgressBody (finalEncodingProgress env plan stop encodingStart)))) (\<lambda>_.
     andThen (emit CleanupFiles) (\<lambda>_.
     andThen (await (errorsInspected env) InspectErrors) (\<lambda>_.
     andThen (await (filesDeleted env) DeleteChunks) (\<lambda>_.
     andThen (await (finalProgressWritten env) WriteFinalProgress) (\<lambda>_.
     andThen (emit (WriteFileDone (EncodingProgressKey (renderId params)))) (\<lambda>_.
     andThen (emit WritePostRenderData) (\<lambda>_.
     andThen (await (postRenderDataWritten env) WritePostRenderDataFile) (\<lambda>_.
     andThen (emit RmOutfile) (\<lambda>_.
     andThen (await (chunksCleanedUp env) CleanupChunks) (\<lambda>_.
     await (outfileRemoved env) RemoveOutfile))))))))))))))))"

definition innerLaunchHandler :: "Outcomes \<Rightarrow> LaunchParams \<Rightarrow> unit run" where
  "innerLaunchHandler env params =
     andThen (planLaunch env params) (\<lambda>plan.
     andThen (dispatch env params plan) (\<lambda>_.
     andThen (stitch env params plan) (\<lambda>(stop, encodingStart).
     finalize env params plan stop encodingStart)))"

text \<open>
  The record written by the \<^verbatim>\<open>catch\<close> of \<^verbatim>\<open>launchHandler\<close>; the stack of
  the error and \<^verbatim>\<open>getTmpDirStateIfENoSp\<close> of it come from the outcomes.
\<close>

definition fatalErrorInfo :: "Outcomes \<Rightarrow> Error \<Rightarrow> ErrorInfo" where
  "fatalErrorInfo env err =
     \<lparr>errorChunk = None,
      errorFrame = None,
      isFatal = True,
      stack = errorStack env err,
      tmpDir = tmpDirState env (errorStack env err),
      errorType = ''stitcher'',
      attempt = 1,
      totalAttempts = 1,
      willRetry = False\<rparr>"

text \<open>
  Lines 370 to 399. The type guard stands before the \<^verbatim>\<open>try\<close>; in the
  \<^verbatim>\<open>catch\<close>, \<^verbatim>\<open>writeLambdaError\<close> is awaited.
\<close>

definition launchHandler :: "Outcomes \<Rightarrow> LaunchParams \<Rightarrow> unit run" where
  "launchHandler env params =
     (if routine params \<noteq> launch then throw ExpectedLaunchType
      else case innerLaunchHandler env params of
        (t, Inr u) \<Rightarrow> (t, Inr u)
      | (t, Inl err) \<Rightarrow>
          andThen (t, Inr ()) (\<lambda>_.
          andThen (emit (WriteLambdaError (fatalErrorInfo env err))) (\<lambda>_.
          await (lambdaErrorWritten env) WriteErrorFile)))"

text \<open>
  A dispatch event, the payload groups of the dispatch events of a trace, and the fatal
  error records of a trace.
\<close>

fun isInvokeFire :: "Event \<Rightarrow> bool" where
  "isInvokeFire (InvokeFire index payloads) = True"
| "isInvokeFire ev = False"

fun firedGroups :: "Event list \<Rightarrow> RenderPayload list list" where
  "firedGroups [] = []"
| "firedGroups (InvokeFire index payloads # evs) = payloads # firedGroups evs"
| "firedGroups (ev # evs) = firedGroups evs"

fun fatalRecords :: "Event list \<Rightarrow> ErrorInfo list" where
  "fatalRecords [] = []"
| "fatalRecords (WriteLambdaError info # evs) =
     (if isFatal info then info # fatalRecords evs else fatalRecords evs)"
| "fatalRecords (ev # evs) = fatalRecords evs"

subsection \<open>An example run\<close>

text \<open>
  A request for a composition of 100 frames at 20 frames per Lambda, and a run in which
  every collaborator answers: five chunks, two fire groups, two calls of the progress
  callback. \<open>shortVideo\<close> and \<open>tenFrames\<close> are compositions of 16 and of 10 frames.
\<close>

definition exampleParams :: LaunchParams where
  "exampleParams =
     \<lparr>routine = launch, framesPerLambda = Some 20, renderId = ''r1'', bucketName = ''bucket'',
      serveUrl = ''https://site'', composition = ''main'', maxRetries = 3, privacy = Public,
      enableChunkOptimization = True, saveBrowserLogs = False, renderOptions = ''h264''\<rparr>"

definition exampleVideo :: VideoConfig where
  "exampleVideo = \<lparr>compId = ''main'', durationInFrames = 100, fps = 30, height = 1080, width = 1920\<rparr>"

definition exampleObservation :: "int \<Rightarrow> int \<Rightarrow> Observation" where
  "exampleObservation frames now =
     \<lparr>obsFrames = frames, obsStart = 1000, obsNow = now, obsWriteError = None\<rparr>"

definition goodRun :: Outcomes where
  "goodRun =
     \<lparr>browserInstanceOk = True, optimizationOk = True, compositionResult = Some exampleVideo,
      durationValid = True, fpsValid = True, heightValid = True, widthValid = True,
      privacyValid = True,
      plannedChunks =
        [(0, 0, 19), (1, 20, 39), (2, 40, 59), (3, 60, 79), (4, 80, 99)],
      plannedWithOptimization = False, clockAtPlan = 900, renderMetadataWritten = True,
      fireSubmitted = (\<lambda>index. True),
      observations = [exampleObservation 15 1200, exampleObservation 100 1400],
      concatResult = Some 1000, clockAfterConcat = 1500, outputWritten = True,
      chunkDataCollected = True, optimizedProfileValid = True, optimizationWritten = True,
      listingOk = True, timeToInvokeLambdas = Some 50, finalProgressWritten = True,
      errorsInspected = True, filesDeleted = True, postRenderDataWritten = True,
      chunksCleanedUp = True, outfileRemoved = True,
      errorStack = (\<lambda>err. ''Error''), tmpDirState = (\<lambda>stack. None),
      lambdaErrorWritten = True\<rparr>"

definition shortVideo :: VideoConfig where
  "shortVideo = \<lparr>compId = ''main'', durationInFrames = 16, fps = 30, height = 1080, width = 1920\<rparr>"

definition tenFrames :: VideoConfig where
  "tenFrames = \<lparr>compId = ''main'', durationInFrames = 10, fps = 30, height = 1080, width = 1920\<rparr>"

section \<open>Properties\<close>

subsection \<open>Runs and their traces\<close>

lemma andThen_throw [simp]: "andThen (throw e) f = throw e"
  by (simp add: andThen_def throw_def)

lemma andThen_ret [simp]: "andThen (ret x) f = f x"
  by (simp add: andThen_def ret_def split: prod.splits)

lemma andThen_emit [simp]: "andThen (emit ev) f = (ev # fst (f ()), snd (f ()))"
  by (simp add: andThen_def emit_def split: prod.splits)

lemma andThen_await [simp]:
  "andThen (await b s) f = (if b then f () else throw (Failed s))"
  by (simp add: await_def)

lemma fst_andThen:
  "fst (andThen m f) = (case snd m of Inl e \<Rightarrow> fst m | Inr x \<Rightarrow> fst m @ fst (f x))"
  by (cases m) (auto simp: andThen_def split: sum.splits prod.splits)

lemma snd_andThen:
  "snd (andThen m f) = (case snd m of Inl e \<Rightarrow> Inl e | Inr x \<Rightarrow> snd (f x))"
  by (cases m) (auto simp: andThen_def split: sum.splits prod.splits)

lemma fst_throw [simp]: "fst (throw e) = []"
  by (simp add: throw_def)

lemma snd_throw [simp]: "snd (throw e) = Inl e"
  by (simp add: throw_def)

lemma fst_ret [simp]: "fst (ret x) = []"
  by (simp add: ret_def)

lemma snd_ret [simp]: "snd (ret x) = Inr x"
  by (simp add: ret_def)

lemma fst_await [simp]: "fst (await b s) = []"
  by (simp add: await_def)

lemma snd_await [simp]: "snd (await b s) = (if b then Inr () else Inl (Failed s))"
  by (simp add: await_def)

lemma andThen_Inr [simp]: "andThen (t, Inr x) f = (t @ fst (f x), snd (f x))"
  by (simp add: andThen_def split: prod.splits)

lemma andThen_Inl [simp]: "andThen (t, Inl e) f = (t, Inl e)"
  by (simp add: andThen_def)

subsection \<open>Double-precision arithmetic\<close>

lemma roundHalfEven_ge: "of_int n \<le> q \<Longrightarrow> n \<le> roundHalfEven q"
proof -
  assume "of_int n \<le> q"
  then have "n \<le> \<lfloor>q\<rfloor>" by (simp add: le_floor_iff)
  then show ?thesis by (simp add: roundHalfEven_def Let_def)
qed

lemma roundHalfEven_le: "q \<le> of_int n \<Longrightarrow> roundHalfEven q \<le> n"
proof -
  assume a: "q \<le> of_int n"
  then have f: "\<lfloor>q\<rfloor> \<le> n" by (simp add: floor_le_iff)
  show ?thesis
  proof (cases "\<lfloor>q\<rfloor> = n")
    case True
    with a have "q - of_int \<lfloor>q\<rfloor> \<le> 0" by simp
    then show ?thesis using True by (simp add: roundHalfEven_def Let_def)
  next
    case False
    with f have "\<lfloor>q\<rfloor> + 1 \<le> n" by simp
    then show ?thesis by (simp add: roundHalfEven_def Let_def)
  qed
qed

lemma roundHalfEven_up: "of_int n + 1 / 2 < q \<Longrightarrow> n + 1 \<le> roundHalfEven q"
proof -
  assume a: "of_int n + 1 / 2 < q"
  then have f: "n \<le> \<lfloor>q\<rfloor>" by (simp add: le_floor_iff)
  show ?thesis
  proof (cases "\<lfloor>q\<rfloor> = n")
    case True
    with a have "1 / 2 < q - of_int \<lfloor>q\<rfloor>" by simp
    then show ?thesis using True by (simp add: roundHalfEven_def Let_def)
  next
    case False
    with f have "n + 1 \<le> \<lfloor>q\<rfloor>" by simp
    then show ?thesis by (simp add: roundHalfEven_def Let_def)
  qed
qed

lemma roundHalfEven_down: "q < of_int n - 1 / 2 \<Longrightarrow> roundHalfEven q \<le> n - 1"
proof -
  assume a: "q < of_int n - 1 / 2"
  then have "q < of_int n" by simp
  then have f: "\<lfloor>q\<rfloor> \<le> n - 1" by (simp add: floor_less_iff)
  show ?thesis
  proof (cases "\<lfloor>q\<rfloor> = n - 1")
    case True
    with a have "q - of_int \<lfloor>q\<rfloor> < 1 / 2" by simp
    then show ?thesis using True by (simp add: roundHalfEven_def Let_def)
  next
    case False
    with f have "\<lfloor>q\<rfloor> + 1 \<le> n - 1" by simp
    then show ?thesis by (simp add: roundHalfEven_def Let_def)
  qed
qed

lemma exponentOf_bounds:
  assumes "0 < x"
  shows "2 powi exponentOf x \<le> x" and "x < 2 powi (exponentOf x + 1)"
proof -
  obtain p q where pq: "quotient_of x = (p, q)" by (cases "quotient_of x")
  then have q: "0 < q" and x: "x = of_int p / of_int q"
    by (simp_all add: quotient_of_denom_pos quotient_of_div)
  from assms q x have p: "0 < p"
    by (simp add: zero_less_divide_iff)
  let ?k = "bitlen p - bitlen q"
  from p q have bp: "1 \<le> bitlen p" and bq: "1 \<le> bitlen q"
    using bitlen_eq_zero_iff [of p] bitlen_eq_zero_iff [of q] bitlen_nonneg [of p] bitlen_nonneg [of q]
    by linarith+
  from bitlen_bounds [OF p] have "(2::int) ^ nat (bitlen p - 1) \<le> p" and "p < 2 ^ nat (bitlen p)"
    by simp_all
  then have "(of_int (2 ^ nat (bitlen p - 1)) :: rat) \<le> of_int p"
    and "(of_int p :: rat) < of_int (2 ^ nat (bitlen p))"
    by (simp_all only: of_int_le_iff of_int_less_iff)
  with bp have p1: "(2::rat) powi (bitlen p - 1) \<le> of_int p" and p2: "(of_int p :: rat) < 2 powi bitlen p"
    by (simp_all add: power_int_def)
  from bitlen_bounds [OF q] have "(2::int) ^ nat (bitlen q - 1) \<le> q" and "q < 2 ^ nat (bitlen q)"
    by simp_all
  then have "(of_int (2 ^ nat (bitlen q - 1)) :: rat) \<le> of_int q"
    and "(of_int q :: rat) < of_int (2 ^ nat (bitlen q))"
    by (simp_all only: of_int_le_iff of_int_less_iff)
  with bq have q1: "(2::rat) powi (bitlen q - 1) \<le> of_int q" and q2: "(of_int q :: rat) < 2 powi bitlen q"
    by (simp_all add: power_int_def)
  have pos: "(0::rat) < 2 powi n" for n
    by (simp add: power_int_def)
  have low: "(2::rat) powi (?k - 1) \<le> x"
  proof -
    have "?k - 1 = bitlen p - 1 - bitlen q"
      by simp
    moreover have "(2::rat) powi (bitlen p - 1 - bitlen q) =
        2 powi (bitlen p - 1) / 2 powi bitlen q"
      by (rule power_int_diff) simp
    ultimately have "(2::rat) powi (?k - 1) = 2 powi (bitlen p - 1) / 2 powi bitlen q"
      by (simp only:)
    also have "\<dots> \<le> of_int p / 2 powi bitlen q"
      using p1 pos by (simp add: divide_right_mono)
    also have "\<dots> \<le> of_int p / of_int q"
      using q2 p q by (simp add: frac_le)
    finally show ?thesis by (simp add: x)
  qed
  have up: "x < (2::rat) powi (?k + 1)"
  proof -
    have "x = of_int p / of_int q" by (rule x)
    also have "\<dots> \<le> of_int p / 2 powi (bitlen q - 1)"
      using q1 p pos [of "bitlen q - 1"] by (simp add: frac_le)
    also have "\<dots> < 2 powi bitlen p / 2 powi (bitlen q - 1)"
      using p2 pos by (simp add: divide_strict_right_mono)
    also have "\<dots> = 2 powi (bitlen p - (bitlen q - 1))"
      by (rule power_int_diff [symmetric]) simp
    also have "bitlen p - (bitlen q - 1) = ?k + 1"
      by simp
    finally show ?thesis .
  qed
  have e: "exponentOf x = (if 2 powi ?k \<le> x then ?k else ?k - 1)"
    by (simp add: exponentOf_def pq Let_def)
  from low show "2 powi exponentOf x \<le> x"
    by (simp add: e)
  from up show "x < 2 powi (exponentOf x + 1)"
    by (auto simp add: e)
qed

lemma twoPow_pos: "(0::rat) < 2 powi n"
  by (simp add: power_int_def)

lemma twoPow_mono: "m \<le> n \<Longrightarrow> (2::rat) powi m \<le> 2 powi n"
  by (rule power_int_increasing) simp_all

lemma twoPow_less_imp: "(2::rat) powi m < 2 powi n \<Longrightarrow> m < n"
proof (rule ccontr)
  assume a: "(2::rat) powi m < 2 powi n" and "\<not> m < n"
  then have "n \<le> m" by simp
  then have "(2::rat) powi n \<le> 2 powi m" by (rule twoPow_mono)
  with a show False by simp
qed

lemma toDouble_nonpos: "x \<le> 0 \<Longrightarrow> toDouble x \<le> 0"
proof (cases "x = 0")
  case True
  then show ?thesis by (simp add: toDouble_def)
next
  case False
  assume "x \<le> 0"
  with False have neg: "x < 0" by simp
  let ?ulp = "(2::rat) powi (exponentOf \<bar>x\<bar> - 52)"
  have "0 \<le> \<bar>x\<bar> / ?ulp"
    using twoPow_pos [of "exponentOf \<bar>x\<bar> - 52"] by simp
  then have "0 \<le> roundHalfEven (\<bar>x\<bar> / ?ulp)"
    by (intro roundHalfEven_ge) simp
  then have "0 \<le> (of_int (roundHalfEven (\<bar>x\<bar> / ?ulp)) :: rat) * ?ulp"
    using twoPow_pos [of "exponentOf \<bar>x\<bar> - 52"] by simp
  with neg show ?thesis
    by (simp add: toDouble_def Let_def)
qed

lemma toDouble_pos:
  "0 < x \<Longrightarrow>
   toDouble x = of_int (roundHalfEven (x / 2 powi (exponentOf x - 52))) * 2 powi (exponentOf x - 52)"
  by (simp add: toDouble_def Let_def)

lemma significand_bounds:
  assumes "0 < x"
  shows "2 ^ 52 \<le> x / 2 powi (exponentOf x - 52)" and "x / 2 powi (exponentOf x - 52) < 2 ^ 53"
proof -
  let ?e = "exponentOf x"
  have a: "(2::rat) powi ?e = 2 ^ 52 * 2 powi (?e - 52)"
    using power_int_add [of "2::rat" 52 "?e - 52"] by simp
  have b: "(2::rat) powi (?e + 1) = 2 ^ 53 * 2 powi (?e - 52)"
    using power_int_add [of "2::rat" 53 "?e - 52"] by (simp add: add.commute)
  from exponentOf_bounds(1) [OF assms] show "2 ^ 52 \<le> x / 2 powi (?e - 52)"
    using twoPow_pos [of "?e - 52"] by (simp add: a pos_le_divide_eq)
  from exponentOf_bounds(2) [OF assms] show "x / 2 powi (?e - 52) < 2 ^ 53"
    using twoPow_pos [of "?e - 52"] by (simp add: b pos_divide_less_eq)
qed

lemma toDouble_gt_one:
  assumes "1 + 1 / 2 ^ 53 < x"
  shows "1 < toDouble x"
proof -
  from assms have pos: "0 < x" and one: "1 < x"
    by (simp_all add: add_pos_pos less_trans [OF _ assms] add_strict_increasing2 less_imp_le)
  let ?e = "exponentOf x"
  let ?ulp = "(2::rat) powi (?e - 52)"
  let ?q = "x / ?ulp"
  have "(2::rat) powi 0 < 2 powi (?e + 1)"
    using one exponentOf_bounds(2) [OF pos] by simp
  then have "0 < ?e + 1"
    by (rule twoPow_less_imp)
  then have e: "0 \<le> ?e"
    by simp
  show ?thesis
  proof (cases "?e = 0")
    case True
    then have ulp: "?ulp = 1 / 2 ^ 52"
      by (simp add: power_int_minus_divide)
    from assms have "of_int (2 ^ 52) + 1 / 2 < x * 2 ^ 52"
      by (simp add: field_simps)
    then have "2 ^ 52 + 1 \<le> roundHalfEven ?q"
      by (intro roundHalfEven_up) (simp add: ulp)
    then have "(of_int (2 ^ 52 + 1) :: rat) \<le> of_int (roundHalfEven ?q)"
      by (simp only: of_int_le_iff)
    then have "(of_int (2 ^ 52 + 1) :: rat) * (1 / 2 ^ 52) \<le> of_int (roundHalfEven ?q) * ?ulp"
      by (simp only: ulp) (simp add: field_simps)
    then show ?thesis
      by (simp add: toDouble_pos [OF pos])
  next
    case False
    with e have "1 \<le> ?e" by simp
    then have "(2::rat) powi 1 \<le> 2 powi ?e"
      by (rule twoPow_mono)
    moreover have "(2::rat) powi ?e \<le> toDouble x"
    proof -
      from significand_bounds(1) [OF pos] have "2 ^ 52 \<le> roundHalfEven ?q"
        by (intro roundHalfEven_ge) simp
      then have "(of_int (2 ^ 52) :: rat) \<le> of_int (roundHalfEven ?q)"
        by (simp only: of_int_le_iff)
      then have "(2 ^ 52 :: rat) * ?ulp \<le> of_int (roundHalfEven ?q) * ?ulp"
        using twoPow_pos [of "?e - 52"] by simp
      moreover have "(2::rat) powi ?e = 2 ^ 52 * ?ulp"
        using power_int_add [of "2::rat" 52 "?e - 52"] by simp
      ultimately show ?thesis
        by (simp add: toDouble_pos [OF pos])
    qed
    ultimately show ?thesis by simp
  qed
qed

lemma toDouble_lt_one:
  assumes "x < 1 - 1 / 2 ^ 53"
  shows "toDouble x < 1"
proof (cases "0 < x")
  case False
  then have "toDouble x \<le> 0" by (intro toDouble_nonpos) simp
  then show ?thesis by simp
next
  case pos: True
  from assms have one: "x < 1"
    by (rule less_trans) simp
  let ?e = "exponentOf x"
  let ?ulp = "(2::rat) powi (?e - 52)"
  let ?q = "x / ?ulp"
  have "(2::rat) powi ?e < 2 powi 0"
    using one exponentOf_bounds(1) [OF pos] by simp
  then have e: "?e < 0"
    by (rule twoPow_less_imp)
  show ?thesis
  proof (cases "?e = - 1")
    case True
    then have ulp: "?ulp = 1 / 2 ^ 53"
      by (simp add: power_int_minus_divide)
    from assms have "x * 2 ^ 53 < of_int (2 ^ 53) - 1 / 2"
      by (simp add: field_simps)
    then have "roundHalfEven ?q \<le> 2 ^ 53 - 1"
      by (intro roundHalfEven_down) (simp add: ulp)
    then have "(of_int (roundHalfEven ?q) :: rat) \<le> of_int (2 ^ 53 - 1)"
      by (simp only: of_int_le_iff)
    then have "of_int (roundHalfEven ?q) * ?ulp \<le> (of_int (2 ^ 53 - 1) :: rat) * (1 / 2 ^ 53)"
      by (simp only: ulp) (simp add: field_simps)
    then show ?thesis
      by (simp add: toDouble_pos [OF pos])
  next
    case False
    with e have "?e + 1 \<le> - 1" by simp
    then have "(2::rat) powi (?e + 1) \<le> 2 powi (- 1)"
      by (rule twoPow_mono)
    moreover have "toDouble x \<le> (2::rat) powi (?e + 1)"
    proof -
      from significand_bounds(2) [OF pos] have "roundHalfEven ?q \<le> 2 ^ 53"
        by (intro roundHalfEven_le) simp
      then have "(of_int (roundHalfEven ?q) :: rat) \<le> of_int (2 ^ 53)"
        by (simp only: of_int_le_iff)
      then have "of_int (roundHalfEven ?q) * ?ulp \<le> (2 ^ 53 :: rat) * ?ulp"
        using twoPow_pos [of "?e - 52"] by simp
      moreover have "(2::rat) powi (?e + 1) = 2 ^ 53 * ?ulp"
        using power_int_add [of "2::rat" 53 "?e - 52"] by (simp add: add.commute)
      ultimately show ?thesis
        by (simp add: toDouble_pos [OF pos])
    qed
    ultimately have "toDouble x \<le> 2 powi (- 1)"
      by (rule order_trans [rotated])
    then show ?thesis
      by (simp add: power_int_minus_divide)
  qed
qed

lemma toDouble_one: "toDouble 1 = 1"
  by code_simp

lemma double_quotient_one:
  assumes "0 < d" and "d < 2 ^ 53"
  shows "(toDouble (of_int f / of_int d) = 1) = (f = d)"
proof (cases "f = d")
  case True
  with assms show ?thesis by (simp add: toDouble_one)
next
  case False
  from assms have dr: "(0::rat) < of_int d" and small: "(1::rat) / 2 ^ 53 < 1 / of_int d"
    by (simp_all add: frac_less2)
  have "toDouble (of_int f / of_int d) \<noteq> 1"
  proof (cases "f < d")
    case True
    then have "f + 1 \<le> d" by simp
    then have "(of_int (f + 1) :: rat) \<le> of_int d"
      by (simp only: of_int_le_iff)
    with dr have "(of_int f :: rat) / of_int d \<le> 1 - 1 / of_int d"
      by (simp add: field_simps)
    with small have "(of_int f :: rat) / of_int d < 1 - 1 / 2 ^ 53"
      by linarith
    then have "toDouble (of_int f / of_int d) < 1"
      by (rule toDouble_lt_one)
    then show ?thesis by simp
  next
    case notless: False
    with False have "d + 1 \<le> f" by simp
    then have "(of_int (d + 1) :: rat) \<le> of_int f"
      by (simp only: of_int_le_iff)
    with dr have "(of_int (d + 1) :: rat) / of_int d \<le> of_int f / of_int d"
      by (intro divide_right_mono) simp_all
    moreover from dr have "(of_int (d + 1) :: rat) / of_int d = 1 + 1 / of_int d"
      by (simp add: add_divide_distrib)
    ultimately have "1 + 1 / of_int d \<le> (of_int f :: rat) / of_int d"
      by simp
    with small have "1 + 1 / 2 ^ 53 < (of_int f :: rat) / of_int d"
      by linarith
    then have "1 < toDouble (of_int f / of_int d)"
      by (rule toDouble_gt_one)
    then show ?thesis by simp
  qed
  with False show ?thesis by simp
qed

lemma roundHalfEven_mono: "q \<le> q' \<Longrightarrow> roundHalfEven q \<le> roundHalfEven q'"
proof -
  assume a: "q \<le> q'"
  then have f: "\<lfloor>q\<rfloor> \<le> \<lfloor>q'\<rfloor>" by (rule floor_mono)
  show ?thesis
  proof (cases "\<lfloor>q\<rfloor> = \<lfloor>q'\<rfloor>")
    case True
    with a have "q - of_int \<lfloor>q\<rfloor> \<le> q' - of_int \<lfloor>q'\<rfloor>" by simp
    then show ?thesis using True by (auto simp add: roundHalfEven_def Let_def)
  next
    case False
    with f have "\<lfloor>q\<rfloor> + 1 \<le> \<lfloor>q'\<rfloor>" by simp
    moreover have "roundHalfEven q \<le> \<lfloor>q\<rfloor> + 1"
      by (simp add: roundHalfEven_def Let_def)
    moreover have "\<lfloor>q'\<rfloor> \<le> roundHalfEven q'"
      by (simp add: roundHalfEven_def Let_def)
    ultimately show ?thesis by linarith
  qed
qed

lemma toDouble_lower:
  assumes "0 < x"
  shows "2 powi exponentOf x \<le> toDouble x"
proof -
  let ?e = "exponentOf x"
  let ?ulp = "(2::rat) powi (?e - 52)"
  let ?q = "x / ?ulp"
  from significand_bounds(1) [OF assms] have "2 ^ 52 \<le> roundHalfEven ?q"
    by (intro roundHalfEven_ge) simp
  then have "(of_int (2 ^ 52) :: rat) \<le> of_int (roundHalfEven ?q)"
    by (simp only: of_int_le_iff)
  then have "(2 ^ 52 :: rat) * ?ulp \<le> of_int (roundHalfEven ?q) * ?ulp"
    using twoPow_pos [of "?e - 52"] by simp
  moreover have "(2::rat) powi ?e = 2 ^ 52 * ?ulp"
    using power_int_add [of "2::rat" 52 "?e - 52"] by simp
  ultimately show ?thesis
    by (simp add: toDouble_pos [OF assms])
qed

lemma toDouble_upper:
  assumes "0 < x"
  shows "toDouble x \<le> 2 powi (exponentOf x + 1)"
proof -
  let ?e = "exponentOf x"
  let ?ulp = "(2::rat) powi (?e - 52)"
  let ?q = "x / ?ulp"
  from significand_bounds(2) [OF assms] have "roundHalfEven ?q \<le> 2 ^ 53"
    by (intro roundHalfEven_le) simp
  then have "(of_int (roundHalfEven ?q) :: rat) \<le> of_int (2 ^ 53)"
    by (simp only: of_int_le_iff)
  then have "of_int (roundHalfEven ?q) * ?ulp \<le> (2 ^ 53 :: rat) * ?ulp"
    using twoPow_pos [of "?e - 52"] by simp
  moreover have "(2::rat) powi (?e + 1) = 2 ^ 53 * ?ulp"
    using power_int_add [of "2::rat" 53 "?e - 52"] by (simp add: add.commute)
  ultimately show ?thesis
    by (simp add: toDouble_pos [OF assms])
qed

lemma toDouble_minus: "toDouble (- x) = - toDouble x"
  by (simp add: toDouble_def Let_def)

lemma toDouble_nonneg: "0 \<le> x \<Longrightarrow> 0 \<le> toDouble x"
  using toDouble_nonpos [of "- x"] by (simp add: toDouble_minus)

lemma toDouble_mono_pos:
  assumes "0 < a" and "a \<le> b"
  shows "toDouble a \<le> toDouble b"
proof -
  from assms have b: "0 < b" by simp
  have "(2::rat) powi exponentOf a \<le> a"
    by (rule exponentOf_bounds(1) [OF assms(1)])
  also note assms(2)
  also have "b < 2 powi (exponentOf b + 1)"
    by (rule exponentOf_bounds(2) [OF b])
  finally have "exponentOf a < exponentOf b + 1"
    by (rule twoPow_less_imp)
  then have e: "exponentOf a \<le> exponentOf b" by simp
  show ?thesis
  proof (cases "exponentOf a = exponentOf b")
    case True
    let ?ulp = "(2::rat) powi (exponentOf b - 52)"
    from assms(2) have "a / ?ulp \<le> b / ?ulp"
      using twoPow_pos [of "exponentOf b - 52"] by (simp add: divide_right_mono)
    then have "roundHalfEven (a / ?ulp) \<le> roundHalfEven (b / ?ulp)"
      by (rule roundHalfEven_mono)
    then have "(of_int (roundHalfEven (a / ?ulp)) :: rat) \<le> of_int (roundHalfEven (b / ?ulp))"
      by (simp only: of_int_le_iff)
    then have "of_int (roundHalfEven (a / ?ulp)) * ?ulp \<le> of_int (roundHalfEven (b / ?ulp)) * ?ulp"
      using twoPow_pos [of "exponentOf b - 52"] by simp
    then show ?thesis
      by (simp add: toDouble_pos [OF assms(1)] toDouble_pos [OF b] True)
  next
    case False
    with e have "exponentOf a + 1 \<le> exponentOf b" by simp
    then have "(2::rat) powi (exponentOf a + 1) \<le> 2 powi exponentOf b"
      by (rule twoPow_mono)
    with toDouble_upper [OF assms(1)] toDouble_lower [OF b] show ?thesis
      by linarith
  qed
qed

lemma toDouble_mono: "a \<le> b \<Longrightarrow> toDouble a \<le> toDouble b"
proof -
  assume ab: "a \<le> b"
  consider "0 < a" | "a \<le> 0" "0 \<le> b" | "b < 0" by linarith
  then show ?thesis
  proof cases
    case 1
    then show ?thesis using ab by (rule toDouble_mono_pos)
  next
    case 2
    then have "toDouble a \<le> 0" and "0 \<le> toDouble b"
      by (simp_all add: toDouble_nonpos toDouble_nonneg)
    then show ?thesis by simp
  next
    case 3
    with ab have "0 < - b" and "- b \<le> - a" by simp_all
    then have "toDouble (- b) \<le> toDouble (- a)" by (rule toDouble_mono_pos)
    then show ?thesis by (simp add: toDouble_minus)
  qed
qed


lemma tenth_pos: "0 < toDouble (1 / 10)"
  by code_simp

lemma toDouble_zero: "toDouble 0 = 0"
  by (simp add: toDouble_def)

subsection \<open>The progress reporter\<close>

lemma onProgress_skip:
  "(snd (onProgress params video st ob) = []) =
     (toDouble (relativeProgress (obsFrames ob) (durationInFrames video) - lastProgressUploaded st)
        < toDouble (1 / 10))"
  by (simp add: onProgress_def Let_def)

lemma onProgress_persisted:
  "persisted (snd (onProgress params video st ob)) =
     (if snd (onProgress params video st ob) = [] then []
      else [\<lparr>framesEncoded = obsFrames ob,
             totalFrames = durationInFrames video,
             doneIn = doneInOf (encodingStop (fst (onProgress params video st ob))) (obsStart ob),
             timeToInvoke = None\<rparr>])"
  by (auto simp add: onProgress_def Let_def split: option.splits)

lemma onProgress_last:
  "lastProgressUploaded (fst (onProgress params video st ob)) =
     (if snd (onProgress params video st ob) = [] then lastProgressUploaded st
      else relativeProgress (obsFrames ob) (durationInFrames video))"
  by (simp add: onProgress_def Let_def)

lemma written_above_last:
  assumes "snd (onProgress params video st ob) \<noteq> []"
  shows "lastProgressUploaded st < relativeProgress (obsFrames ob) (durationInFrames video)"
proof (rule ccontr)
  let ?rel = "relativeProgress (obsFrames ob) (durationInFrames video)"
  assume "\<not> lastProgressUploaded st < ?rel"
  then have "?rel - lastProgressUploaded st \<le> 0" by simp
  then have "toDouble (?rel - lastProgressUploaded st) \<le> 0" by (rule toDouble_nonpos)
  with tenth_pos have "toDouble (?rel - lastProgressUploaded st) < toDouble (1 / 10)"
    by simp
  with assms show False by (simp add: onProgress_skip)
qed

lemma relativeProgress_mono:
  "0 < d \<Longrightarrow> f \<le> f' \<Longrightarrow> relativeProgress f d \<le> relativeProgress f' d"
  unfolding relativeProgress_def
  by (intro toDouble_mono divide_right_mono) simp_all

lemma persisted_append: "persisted (xs @ ys) = persisted xs @ persisted ys"
  by (induction xs rule: persisted.induct) simp_all

lemma progressLoop_Cons:
  "progressLoop params video st (ob # obs) =
     (fst (progressLoop params video (fst (onProgress params video st ob)) obs),
      snd (onProgress params video st ob) @
      snd (progressLoop params video (fst (onProgress params video st ob)) obs))"
  by (simp split: prod.splits)

lemma written_fractions_sorted:
  "sorted (lastProgressUploaded st #
           map persistedRelative (persisted (snd (progressLoop params video st obs))))
   \<and> lastProgressUploaded (fst (progressLoop params video st obs)) =
       last (lastProgressUploaded st #
             map persistedRelative (persisted (snd (progressLoop params video st obs))))"
proof (induction obs arbitrary: st)
  case Nil
  show ?case by simp
next
  case (Cons ob obs)
  let ?st1 = "fst (onProgress params video st ob)"
  let ?rel = "relativeProgress (obsFrames ob) (durationInFrames video)"
  let ?rest = "map persistedRelative (persisted (snd (progressLoop params video ?st1 obs)))"
  have ih: "sorted (lastProgressUploaded ?st1 # ?rest)"
    and ihl: "lastProgressUploaded (fst (progressLoop params video ?st1 obs)) =
                last (lastProgressUploaded ?st1 # ?rest)"
    using Cons.IH [of ?st1] by simp_all
  show ?case
  proof (cases "snd (onProgress params video st ob) = []")
    case True
    then have "lastProgressUploaded ?st1 = lastProgressUploaded st"
      by (simp add: onProgress_last)
    with ih ihl True show ?thesis
      by (simp only: progressLoop_Cons fst_conv snd_conv append_Nil)
  next
    case False
    then have l: "lastProgressUploaded ?st1 = ?rel"
      by (simp add: onProgress_last)
    from False have p: "map persistedRelative (persisted (snd (onProgress params video st ob))) =
        [?rel]"
      by (simp add: onProgress_persisted persistedRelative_def)
    from written_above_last [OF False] have le: "lastProgressUploaded st \<le> ?rel" by simp
    have e: "map persistedRelative (persisted (snd (progressLoop params video st (ob # obs)))) =
               ?rel # ?rest"
      using p by (simp only: progressLoop_Cons snd_conv persisted_append map_append) simp
    from ih l have "sorted (?rel # ?rest)" by simp
    with le have "sorted (lastProgressUploaded st # ?rel # ?rest)"
      by auto
    moreover have "lastProgressUploaded (fst (progressLoop params video st (ob # obs))) =
                     last (?rel # ?rest)"
      using ihl l by (simp only: progressLoop_Cons fst_conv)
    ultimately show ?thesis
      by (simp only: e) simp
  qed
qed

lemma written_frames_sorted:
  assumes "0 < durationInFrames video"
  shows "lastProgressUploaded st = relativeProgress frames0 (durationInFrames video) \<Longrightarrow>
         sorted (frames0 # map framesEncoded (persisted (snd (progressLoop params video st obs))))"
proof (induction obs arbitrary: st frames0)
  case Nil
  show ?case by simp
next
  case (Cons ob obs)
  let ?st1 = "fst (onProgress params video st ob)"
  let ?rest = "map framesEncoded (persisted (snd (progressLoop params video ?st1 obs)))"
  show ?case
  proof (cases "snd (onProgress params video st ob) = []")
    case True
    then have "lastProgressUploaded ?st1 = relativeProgress frames0 (durationInFrames video)"
      by (simp add: onProgress_last Cons.prems)
    then have "sorted (frames0 # ?rest)"
      by (rule Cons.IH)
    with True show ?thesis
      by (simp only: progressLoop_Cons snd_conv append_Nil)
  next
    case False
    then have "lastProgressUploaded ?st1 =
        relativeProgress (obsFrames ob) (durationInFrames video)"
      by (simp add: onProgress_last)
    then have ih: "sorted (obsFrames ob # ?rest)"
      by (rule Cons.IH)
    have "frames0 < obsFrames ob"
    proof (rule ccontr)
      assume "\<not> frames0 < obsFrames ob"
      then have "obsFrames ob \<le> frames0" by simp
      with assms have "relativeProgress (obsFrames ob) (durationInFrames video)
          \<le> relativeProgress frames0 (durationInFrames video)"
        by (rule relativeProgress_mono)
      with written_above_last [OF False] Cons.prems show False by simp
    qed
    moreover from False
    have "map framesEncoded (persisted (snd (progressLoop params video st (ob # obs)))) =
        obsFrames ob # ?rest"
      by (simp only: progressLoop_Cons snd_conv persisted_append map_append)
        (simp add: onProgress_persisted)
    ultimately show ?thesis using ih
      by auto
  qed
qed

lemma relativeProgress_one:
  "0 < d \<Longrightarrow> d < 2 ^ 53 \<Longrightarrow> (relativeProgress f d = 1) = (f = d)"
  by (simp add: relativeProgress_def double_quotient_one)


text \<open>
  C2, as the code has it. The early \<^verbatim>\<open>return\<close> of the callback tests only
  \<^verbatim>\<open>deltaSinceLastProgressUploaded < 0.1\<close>: a call causes no write exactly when
  the difference between its fraction and the last written one, computed in doubles,
  is below the double 0.1, whatever the fraction is. So a call with
  \<open>framesEncoded = durationInFrames\<close> (fraction 1) is skipped exactly when the double
  \<open>1 - lastProgressUploaded\<close> is below 0.1.
\<close>

theorem progress_write_throttle:
  assumes "0 < durationInFrames video"
  shows "(snd (onProgress params video st ob) = []) =
           (toDouble (relativeProgress (obsFrames ob) (durationInFrames video)
                        - lastProgressUploaded st) < toDouble (1 / 10))
         \<and> (obsFrames ob = durationInFrames video \<longrightarrow>
              (snd (onProgress params video st ob) = []) =
                (toDouble (1 - lastProgressUploaded st) < toDouble (1 / 10)))"
proof -
  have "obsFrames ob = durationInFrames video \<Longrightarrow>
          relativeProgress (obsFrames ob) (durationInFrames video) = 1"
    using assms by (simp add: relativeProgress_def toDouble_one)
  then show ?thesis
    by (auto simp add: onProgress_skip)
qed

theorem progress_write_throttle_witness:
  "0 < durationInFrames exampleVideo
   \<and> obsFrames (exampleObservation 100 1400) = durationInFrames exampleVideo
   \<and> \<not> toDouble (1 - lastProgressUploaded initialProgress) < toDouble (1 / 10)
   \<and> snd (onProgress exampleParams exampleVideo initialProgress (exampleObservation 100 1400))
       \<noteq> []
   \<and> 0 < durationInFrames tenFrames
   \<and> obsFrames (exampleObservation 10 1400) = durationInFrames tenFrames
   \<and> toDouble (1 - relativeProgress 9 10) < toDouble (1 / 10)
   \<and> snd (onProgress exampleParams tenFrames
            \<lparr>lastProgressUploaded = relativeProgress 9 10, encodingStop = None\<rparr>
            (exampleObservation 10 1400)) = []"
proof -
  have pos: "0 < durationInFrames exampleVideo"
    by (simp add: exampleVideo_def)
  have full: "obsFrames (exampleObservation 100 1400) = durationInFrames exampleVideo"
    by (simp add: exampleVideo_def exampleObservation_def)
  have low: "\<not> toDouble (1 - lastProgressUploaded initialProgress) < toDouble (1 / 10)"
    by code_simp
  have pos': "0 < durationInFrames tenFrames"
    by (simp add: tenFrames_def)
  have full': "obsFrames (exampleObservation 10 1400) = durationInFrames tenFrames"
    by (simp add: tenFrames_def exampleObservation_def)
  have high: "toDouble (1 - relativeProgress 9 10) < toDouble (1 / 10)"
    by code_simp
  from progress_write_throttle [OF pos, of exampleParams initialProgress
      "exampleObservation 100 1400"] full low
  have "snd (onProgress exampleParams exampleVideo initialProgress (exampleObservation 100 1400))
       \<noteq> []"
    by blast
  moreover
  from progress_write_throttle [OF pos', of exampleParams
      "\<lparr>lastProgressUploaded = relativeProgress 9 10, encodingStop = None\<rparr>"
      "exampleObservation 10 1400"] full' high
  have "snd (onProgress exampleParams tenFrames
            \<lparr>lastProgressUploaded = relativeProgress 9 10, encodingStop = None\<rparr>
            (exampleObservation 10 1400)) = []"
    by simp
  ultimately show ?thesis
    using pos full low pos' full' high by blast
qed

text \<open>
  C2 as stated fails: with 16 frames, a call at 15 frames is written (fraction 15/16),
  and the following call at 16 frames, whose fraction is 1, is skipped, because the
  fraction grew by 1/16 only.
\<close>

theorem completion_write_skipped:
  "relativeProgress (obsFrames (exampleObservation 16 1200)) (durationInFrames shortVideo) = 1
   \<and> snd (onProgress exampleParams shortVideo initialProgress (exampleObservation 15 1100)) \<noteq> []
   \<and> snd (onProgress exampleParams shortVideo
            (fst (onProgress exampleParams shortVideo initialProgress (exampleObservation 15 1100)))
            (exampleObservation 16 1200)) = []"
  by code_simp

text \<open>
  C3. Over any sequence of calls of the callback, starting in any state, the fractions
  of the snapshots written never decrease, none is below the fraction the state held
  before, and the state ends holding the fraction written last. The frame counts of
  the snapshots written never decrease either, nor fall below a frame count whose
  fraction the state held before. (The snapshot writes are not awaited; the order
  meant is the order in which the callback issues them.)
\<close>

theorem progress_never_regresses:
  assumes "0 < durationInFrames video"
  shows "sorted (lastProgressUploaded st #
                 map persistedRelative (persisted (snd (progressLoop params video st obs))))
         \<and> lastProgressUploaded (fst (progressLoop params video st obs)) =
             last (lastProgressUploaded st #
                   map persistedRelative (persisted (snd (progressLoop params video st obs))))
         \<and> (lastProgressUploaded st = relativeProgress frames0 (durationInFrames video) \<longrightarrow>
              sorted (frames0 #
                      map framesEncoded (persisted (snd (progressLoop params video st obs)))))"
  using written_fractions_sorted [of st params video obs]
    written_frames_sorted [OF assms, of st frames0 params obs]
  by blast

theorem progress_never_regresses_witness:
  "0 < durationInFrames exampleVideo
   \<and> lastProgressUploaded initialProgress = relativeProgress 0 (durationInFrames exampleVideo)
   \<and> map framesEncoded
       (persisted (snd (progressLoop exampleParams exampleVideo initialProgress
          [exampleObservation 20 1100, exampleObservation 30 1200,
           exampleObservation 39 1300, exampleObservation 100 1400]))) = [20, 39, 100]
   \<and> sorted (lastProgressUploaded initialProgress #
             map persistedRelative
               (persisted (snd (progressLoop exampleParams exampleVideo initialProgress
                  [exampleObservation 20 1100, exampleObservation 30 1200,
                   exampleObservation 39 1300, exampleObservation 100 1400]))))
   \<and> lastProgressUploaded
       (fst (progressLoop exampleParams exampleVideo initialProgress
          [exampleObservation 20 1100, exampleObservation 30 1200,
           exampleObservation 39 1300, exampleObservation 100 1400])) = 1"
proof -
  let ?obs = "[exampleObservation 20 1100, exampleObservation 30 1200,
               exampleObservation 39 1300, exampleObservation 100 1400]"
  have pos: "0 < durationInFrames exampleVideo"
    by (simp add: exampleVideo_def)
  have start: "lastProgressUploaded initialProgress =
      relativeProgress 0 (durationInFrames exampleVideo)"
    by (simp add: initialProgress_def relativeProgress_def toDouble_zero)
  have run: "map framesEncoded
       (persisted (snd (progressLoop exampleParams exampleVideo initialProgress ?obs)))
       = [20, 39, 100]"
    by code_simp
  have fin: "last (lastProgressUploaded initialProgress #
       map persistedRelative
         (persisted (snd (progressLoop exampleParams exampleVideo initialProgress ?obs)))) = 1"
    by code_simp
  from progress_never_regresses [OF pos, of initialProgress exampleParams ?obs 0] start
  have "sorted (lastProgressUploaded initialProgress #
             map persistedRelative
               (persisted (snd (progressLoop exampleParams exampleVideo initialProgress ?obs))))"
    and "lastProgressUploaded
       (fst (progressLoop exampleParams exampleVideo initialProgress ?obs)) =
       last (lastProgressUploaded initialProgress #
         map persistedRelative
           (persisted (snd (progressLoop exampleParams exampleVideo initialProgress ?obs))))"
    by blast+
  with fin pos start run show ?thesis
    by (simp only:)
qed

text \<open>
  C7, as the code has it. The callback assigns \<^verbatim>\<open>encodingStop = Date.now()\<close>
  whenever the fraction is 1, with no test of whether a stop time is already recorded:
  every call with \<open>framesEncoded = durationInFrames\<close> overwrites the stop time with the
  clock of that call, and every other call leaves it as it was. (The duration is a
  positive integer that a double holds exactly, so the double quotient is 1 for equal
  frame counts only.)
\<close>

theorem stop_time_set_at_every_completion:
  assumes "0 < durationInFrames video" and "durationInFrames video < 2 ^ 53"
  shows "encodingStop (fst (onProgress params video st ob)) =
           (if obsFrames ob = durationInFrames video then Some (obsNow ob) else encodingStop st)"
  using relativeProgress_one [OF assms, of "obsFrames ob"]
  by (auto simp add: onProgress_def Let_def)

theorem stop_time_set_at_every_completion_witness:
  "0 < durationInFrames exampleVideo
   \<and> durationInFrames exampleVideo < 2 ^ 53
   \<and> encodingStop (fst (onProgress exampleParams exampleVideo
                         \<lparr>lastProgressUploaded = 1, encodingStop = Some 1400\<rparr>
                         (exampleObservation 100 1600))) = Some 1600"
proof -
  have pos: "0 < durationInFrames exampleVideo"
    by (simp add: exampleVideo_def)
  have small: "durationInFrames exampleVideo < 2 ^ 53"
    by (simp add: exampleVideo_def)
  from stop_time_set_at_every_completion [OF pos small, of exampleParams
      "\<lparr>lastProgressUploaded = 1, encodingStop = Some 1400\<rparr>" "exampleObservation 100 1600"]
  show ?thesis using pos small by (simp add: exampleVideo_def exampleObservation_def)
qed

text \<open>
  C7 as stated fails: after a call at all 100 frames at time 1400 the stop time is
  1400, and a second such call at time 1600 changes it to 1600.
\<close>

theorem stop_time_overwritten:
  "encodingStop (fst (progressLoop exampleParams exampleVideo initialProgress
                        [exampleObservation 100 1400])) = Some 1400
   \<and> encodingStop (fst (progressLoop exampleParams exampleVideo initialProgress
                          [exampleObservation 100 1400, exampleObservation 100 1600])) = Some 1600"
  by code_simp

subsection \<open>The events of a launch\<close>

lemma planLaunch_trace [simp]: "fst (planLaunch env params) = []"
  by (simp add: planLaunch_def validateFramesPerLambda_def Let_def split: option.splits)

lemma fireAll_trace:
  "fst (fireAll env groups) =
     map (\<lambda>(index, payloads). InvokeFire index payloads) (enumerate 0 groups)"
  by (simp add: fireAll_def)

lemma dispatch_trace:
  "fst (dispatch env params plan) =
     (if renderMetadataWritten env
      then WriteFile (RenderMetadataKey (renderId params)) Private (MetadataBody (planMetadata plan))
           # WriteFileDone (RenderMetadataKey (renderId params))
           # fst (fireAll env (chunk (planPayloads plan) (planInvokers plan)))
      else [WriteFile (RenderMetadataKey (renderId params)) Private (MetadataBody (planMetadata plan))])"
  by (simp add: dispatch_def)

lemma dispatch_result:
  "snd (dispatch env params plan) =
     (if renderMetadataWritten env
      then snd (fireAll env (chunk (planPayloads plan) (planInvokers plan)))
      else Inl (Failed WriteRenderMetadata))"
  by (simp add: dispatch_def)

lemma stitch_trace:
  "fst (stitch env params plan) =
     snd (progressLoop params (planVideo plan) initialProgress (observations env))"
  by (simp add: stitch_def split: prod.splits)

lemma onProgress_events:
  "ev \<in> set (snd (onProgress params video st ob)) \<Longrightarrow>
     (\<exists>ep. ev = WriteFile (EncodingProgressKey (renderId params)) Private (ProgressBody ep))
     \<or> (\<exists>errStack. ev = WriteLambdaError (progressErrorInfo errStack))"
  by (auto simp add: onProgress_def Let_def split: if_splits option.splits)

lemma progressLoop_events:
  "ev \<in> set (snd (progressLoop params video st obs)) \<Longrightarrow>
     (\<exists>ep. ev = WriteFile (EncodingProgressKey (renderId params)) Private (ProgressBody ep))
     \<or> (\<exists>errStack. ev = WriteLambdaError (progressErrorInfo errStack))"
proof (induction obs arbitrary: st)
  case Nil
  then show ?case by simp
next
  case (Cons ob obs)
  from Cons.prems have "ev \<in> set (snd (onProgress params video st ob))
      \<or> ev \<in> set (snd (progressLoop params video (fst (onProgress params video st ob)) obs))"
    by (simp only: progressLoop_Cons snd_conv set_append Un_iff)
  then show ?case
    using onProgress_events Cons.IH by blast
qed

lemma finalize_trace:
  "snd (finalize env params plan stop encodingStart) = Inr () \<Longrightarrow>
   fst (finalize env params plan stop encodingStart) =
     [WriteFile (OutName (renderId params)) (privacy params) OutfileBody,
      WriteFileDone (OutName (renderId params))]
     @ (if enableChunkOptimization params \<and> optimizedProfileValid env
        then [WriteOptimization] else [])
     @ [WriteFile (EncodingProgressKey (renderId params)) Private
          (ProgressBody (finalEncodingProgress env plan stop encodingStart)),
        CleanupFiles,
        WriteFileDone (EncodingProgressKey (renderId params)),
        WritePostRenderData,
        RmOutfile]"
  by (simp add: finalize_def split: if_splits)

lemma finalize_events:
  "ev \<in> set (fst (finalize env params plan stop encodingStart)) \<Longrightarrow>
     ev = WriteFile (OutName (renderId params)) (privacy params) OutfileBody
     \<or> ev = WriteFileDone (OutName (renderId params))
     \<or> ev = WriteOptimization
     \<or> ev = WriteFile (EncodingProgressKey (renderId params)) Private
              (ProgressBody (finalEncodingProgress env plan stop encodingStart))
     \<or> ev = CleanupFiles
     \<or> ev = WriteFileDone (EncodingProgressKey (renderId params))
     \<or> ev = WritePostRenderData
     \<or> ev = RmOutfile"
  by (auto simp add: finalize_def split: if_splits)

lemma finalize_no_rm:
  "snd (finalize env params plan stop encodingStart) = Inl err \<Longrightarrow>
   err \<noteq> Failed CleanupChunks \<Longrightarrow> err \<noteq> Failed RemoveOutfile \<Longrightarrow>
   RmOutfile \<notin> set (fst (finalize env params plan stop encodingStart))"
  by (simp add: finalize_def split: if_splits)

lemma inner_trace:
  "fst (innerLaunchHandler env params) =
     (case snd (planLaunch env params) of
        Inl e \<Rightarrow> []
      | Inr plan \<Rightarrow>
          fst (dispatch env params plan) @
          (case snd (dispatch env params plan) of
             Inl e \<Rightarrow> []
           | Inr u \<Rightarrow>
               fst (stitch env params plan) @
               (case snd (stitch env params plan) of
                  Inl e \<Rightarrow> []
                | Inr (stop, encodingStart) \<Rightarrow> fst (finalize env params plan stop encodingStart))))"
  by (simp add: innerLaunchHandler_def fst_andThen snd_andThen split: sum.splits prod.splits)

lemma inner_result:
  "snd (innerLaunchHandler env params) =
     (case snd (planLaunch env params) of
        Inl e \<Rightarrow> Inl e
      | Inr plan \<Rightarrow>
          (case snd (dispatch env params plan) of
             Inl e \<Rightarrow> Inl e
           | Inr u \<Rightarrow>
               (case snd (stitch env params plan) of
                  Inl e \<Rightarrow> Inl e
                | Inr (stop, encodingStart) \<Rightarrow> snd (finalize env params plan stop encodingStart))))"
  by (simp add: innerLaunchHandler_def snd_andThen split: sum.splits prod.splits)

lemma inner_events:
  assumes "ev \<in> set (fst (innerLaunchHandler env params))"
  shows "(\<exists>md. ev = WriteFile (RenderMetadataKey (renderId params)) Private (MetadataBody md))
     \<or> ev = WriteFileDone (RenderMetadataKey (renderId params))
     \<or> (\<exists>index payloads. ev = InvokeFire index payloads)
     \<or> (\<exists>ep. ev = WriteFile (EncodingProgressKey (renderId params)) Private (ProgressBody ep))
     \<or> (\<exists>errStack. ev = WriteLambdaError (progressErrorInfo errStack))
     \<or> ev = WriteFile (OutName (renderId params)) (privacy params) OutfileBody
     \<or> ev = WriteFileDone (OutName (renderId params))
     \<or> ev = WriteOptimization
     \<or> ev = CleanupFiles
     \<or> ev = WriteFileDone (EncodingProgressKey (renderId params))
     \<or> ev = WritePostRenderData
     \<or> ev = RmOutfile"
proof -
  from assms obtain plan where
    "ev \<in> set (fst (dispatch env params plan))
     \<or> ev \<in> set (fst (stitch env params plan))
     \<or> (\<exists>stop encodingStart. ev \<in> set (fst (finalize env params plan stop encodingStart)))"
    by (auto simp add: inner_trace split: sum.splits prod.splits)
  then consider
    (d) "ev \<in> set (fst (dispatch env params plan))"
    | (s) "ev \<in> set (snd (progressLoop params (planVideo plan) initialProgress (observations env)))"
    | (f) stop encodingStart where "ev \<in> set (fst (finalize env params plan stop encodingStart))"
    by (auto simp add: stitch_trace)
  then show ?thesis
  proof cases
    case d
    then show ?thesis
      by (auto simp add: dispatch_trace fireAll_trace split: if_splits)
  next
    case s
    from progressLoop_events [OF s] show ?thesis by blast
  next
    case f
    from finalize_events [OF f] show ?thesis by blast
  qed
qed

subsection \<open>Order and content of the writes\<close>

lemma launchHandler_trace:
  "fst (launchHandler env params) =
     (if routine params \<noteq> launch then []
      else case snd (innerLaunchHandler env params) of
        Inr u \<Rightarrow> fst (innerLaunchHandler env params)
      | Inl err \<Rightarrow>
          fst (innerLaunchHandler env params) @ [WriteLambdaError (fatalErrorInfo env err)])"
  by (cases "innerLaunchHandler env params")
    (simp add: launchHandler_def split: sum.splits)

lemma launchHandler_result:
  "snd (launchHandler env params) =
     (if routine params \<noteq> launch then Inl ExpectedLaunchType
      else case snd (innerLaunchHandler env params) of
        Inr u \<Rightarrow> Inr u
      | Inl err \<Rightarrow> if lambdaErrorWritten env then Inr () else Inl (Failed WriteErrorFile))"
  by (cases "innerLaunchHandler env params")
    (simp add: launchHandler_def split: sum.splits)

lemma inner_trace_head:
  "fst (innerLaunchHandler env params) = []
   \<or> (\<not> renderMetadataWritten env \<and>
       (\<exists>md. fst (innerLaunchHandler env params) =
          [WriteFile (RenderMetadataKey (renderId params)) Private (MetadataBody md)]))
   \<or> (\<exists>md rest. fst (innerLaunchHandler env params) =
          WriteFile (RenderMetadataKey (renderId params)) Private (MetadataBody md)
          # WriteFileDone (RenderMetadataKey (renderId params)) # rest)"
  by (simp add: inner_trace dispatch_trace dispatch_result split: sum.splits)

text \<open>
  C1. In every run of the launch, a dispatch event is preceded by the point where the
  awaited write of the render metadata was seen fulfilled. And when the plan is made
  but that write fails, the inner routine consists of the attempted write alone and
  ends with the write's error; all the handler adds is the fatal error record: nothing
  is dispatched.
\<close>

theorem metadata_durable_before_dispatch:
  "(i < length (fst (innerLaunchHandler env params))
      \<and> isInvokeFire (fst (innerLaunchHandler env params) ! i) \<longrightarrow>
    (\<exists>j<i. fst (innerLaunchHandler env params) ! j =
              WriteFileDone (RenderMetadataKey (renderId params))))
   \<and> (snd (planLaunch env params) = Inr plan \<and> \<not> renderMetadataWritten env \<longrightarrow>
        innerLaunchHandler env params =
          ([WriteFile (RenderMetadataKey (renderId params)) Private
              (MetadataBody (planMetadata plan))],
           Inl (Failed WriteRenderMetadata))
        \<and> fst (launchHandler env params) =
            [WriteFile (RenderMetadataKey (renderId params)) Private
               (MetadataBody (planMetadata plan)),
             WriteLambdaError (fatalErrorInfo env (Failed WriteRenderMetadata))])"
proof
  show "i < length (fst (innerLaunchHandler env params))
      \<and> isInvokeFire (fst (innerLaunchHandler env params) ! i) \<longrightarrow>
    (\<exists>j<i. fst (innerLaunchHandler env params) ! j =
              WriteFileDone (RenderMetadataKey (renderId params)))"
  proof
    assume a: "i < length (fst (innerLaunchHandler env params))
      \<and> isInvokeFire (fst (innerLaunchHandler env params) ! i)"
    from inner_trace_head [of env params] a
    obtain md rest where t: "fst (innerLaunchHandler env params) =
          WriteFile (RenderMetadataKey (renderId params)) Private (MetadataBody md)
          # WriteFileDone (RenderMetadataKey (renderId params)) # rest"
      by (cases i) auto
    with a have "1 < i"
      by (cases i; cases "i - 1") auto
    moreover from t have "fst (innerLaunchHandler env params) ! 1 =
        WriteFileDone (RenderMetadataKey (renderId params))"
      by simp
    ultimately show "\<exists>j<i. fst (innerLaunchHandler env params) ! j =
              WriteFileDone (RenderMetadataKey (renderId params))"
      by blast
  qed
next
  show "snd (planLaunch env params) = Inr plan \<and> \<not> renderMetadataWritten env \<longrightarrow>
        innerLaunchHandler env params =
          ([WriteFile (RenderMetadataKey (renderId params)) Private
              (MetadataBody (planMetadata plan))],
           Inl (Failed WriteRenderMetadata))
        \<and> fst (launchHandler env params) =
            [WriteFile (RenderMetadataKey (renderId params)) Private
               (MetadataBody (planMetadata plan)),
             WriteLambdaError (fatalErrorInfo env (Failed WriteRenderMetadata))]"
  proof (intro impI)
    assume a: "snd (planLaunch env params) = Inr plan \<and> \<not> renderMetadataWritten env"
    then have inner: "innerLaunchHandler env params =
          ([WriteFile (RenderMetadataKey (renderId params)) Private
              (MetadataBody (planMetadata plan))],
           Inl (Failed WriteRenderMetadata))"
      by (simp add: prod_eq_iff inner_trace inner_result dispatch_trace dispatch_result)
    from a have "routine params = launch"
      by (auto simp add: planLaunch_def split: if_splits)
    with inner show "innerLaunchHandler env params =
          ([WriteFile (RenderMetadataKey (renderId params)) Private
              (MetadataBody (planMetadata plan))],
           Inl (Failed WriteRenderMetadata))
        \<and> fst (launchHandler env params) =
            [WriteFile (RenderMetadataKey (renderId params)) Private
               (MetadataBody (planMetadata plan)),
             WriteLambdaError (fatalErrorInfo env (Failed WriteRenderMetadata))]"
      by (simp add: launchHandler_trace)
  qed
qed

theorem metadata_durable_before_dispatch_witness:
  "2 < length (fst (innerLaunchHandler goodRun exampleParams))
   \<and> isInvokeFire (fst (innerLaunchHandler goodRun exampleParams) ! 2)
   \<and> (\<exists>j<2. fst (innerLaunchHandler goodRun exampleParams) ! j =
               WriteFileDone (RenderMetadataKey (renderId exampleParams)))
   \<and> (\<exists>plan. snd (planLaunch (goodRun\<lparr>renderMetadataWritten := False\<rparr>) exampleParams) = Inr plan)
   \<and> \<not> renderMetadataWritten (goodRun\<lparr>renderMetadataWritten := False\<rparr>)
   \<and> snd (innerLaunchHandler (goodRun\<lparr>renderMetadataWritten := False\<rparr>) exampleParams) =
        Inl (Failed WriteRenderMetadata)
   \<and> length (fst (innerLaunchHandler (goodRun\<lparr>renderMetadataWritten := False\<rparr>) exampleParams)) = 1"
proof -
  have a: "2 < length (fst (innerLaunchHandler goodRun exampleParams))"
    by code_simp
  have b: "isInvokeFire (fst (innerLaunchHandler goodRun exampleParams) ! 2)"
    by code_simp
  obtain plan where
    c: "snd (planLaunch (goodRun\<lparr>renderMetadataWritten := False\<rparr>) exampleParams) = Inr plan"
    by (simp add: planLaunch_def validateFramesPerLambda_def exampleParams_def goodRun_def Let_def)
  have d: "\<not> renderMetadataWritten (goodRun\<lparr>renderMetadataWritten := False\<rparr>)"
    by simp
  from metadata_durable_before_dispatch [of 2 goodRun exampleParams] a b
  have "\<exists>j<2. fst (innerLaunchHandler goodRun exampleParams) ! j =
               WriteFileDone (RenderMetadataKey (renderId exampleParams))"
    by blast
  moreover
  from metadata_durable_before_dispatch
     [of _ "goodRun\<lparr>renderMetadataWritten := False\<rparr>" exampleParams plan] c d
  have "innerLaunchHandler (goodRun\<lparr>renderMetadataWritten := False\<rparr>) exampleParams =
          ([WriteFile (RenderMetadataKey (renderId exampleParams)) Private
              (MetadataBody (planMetadata plan))],
           Inl (Failed WriteRenderMetadata))"
    by blast
  ultimately show ?thesis using a b c d by auto
qed

text \<open>
  C10. Every \<^verbatim>\<open>lambdaWriteFile\<close> of a launch, failed or not, is one of three:
  the render metadata and a progress snapshot (throttled or final), both written
  \<^verbatim>\<open>private\<close> whatever the request says, and the merged output, the only one
  written with the privacy of the request. (What \<^verbatim>\<open>writeLambdaError\<close>,
  \<^verbatim>\<open>writeOptimization\<close> and \<^verbatim>\<open>writePostRenderData\<close> write is decided in
  those helpers; their calls are events of their own.)
\<close>

theorem only_output_under_job_privacy:
  assumes "WriteFile key priv body \<in> set (fst (launchHandler env params))"
  shows "(key = RenderMetadataKey (renderId params) \<and> priv = Private
            \<and> (\<exists>md. body = MetadataBody md))
         \<or> (key = EncodingProgressKey (renderId params) \<and> priv = Private
            \<and> (\<exists>ep. body = ProgressBody ep))
         \<or> (key = OutName (renderId params) \<and> priv = privacy params \<and> body = OutfileBody)"
proof -
  from assms have "WriteFile key priv body \<in> set (fst (innerLaunchHandler env params))"
    by (auto simp add: launchHandler_trace split: if_splits sum.splits)
  from inner_events [OF this] show ?thesis
    by auto
qed

theorem only_output_under_job_privacy_witness:
  "WriteFile (OutName ''r1'') Public OutfileBody \<in> set (fst (launchHandler goodRun exampleParams))
   \<and> privacy exampleParams = Public
   \<and> WriteFile (EncodingProgressKey ''r1'') Private
        (ProgressBody \<lparr>framesEncoded = 15, totalFrames = 100, doneIn = None, timeToInvoke = None\<rparr>)
        \<in> set (fst (launchHandler goodRun exampleParams))
   \<and> WriteFile (RenderMetadataKey ''r1'') Private
        (MetadataBody (renderMetadataOf goodRun exampleParams 20 exampleVideo (plannedChunks goodRun)))
        \<in> set (fst (launchHandler goodRun exampleParams))"
proof -
  have out: "WriteFile (OutName ''r1'') Public OutfileBody
               \<in> set (fst (launchHandler goodRun exampleParams))"
    by code_simp
  have prog: "WriteFile (EncodingProgressKey ''r1'') Private
        (ProgressBody \<lparr>framesEncoded = 15, totalFrames = 100, doneIn = None, timeToInvoke = None\<rparr>)
        \<in> set (fst (launchHandler goodRun exampleParams))"
    by code_simp
  have meta: "WriteFile (RenderMetadataKey ''r1'') Private
        (MetadataBody (renderMetadataOf goodRun exampleParams 20 exampleVideo (plannedChunks goodRun)))
        \<in> set (fst (launchHandler goodRun exampleParams))"
    by code_simp
  from only_output_under_job_privacy [OF out] have "privacy exampleParams = Public"
    by simp
  with out prog meta show ?thesis by simp
qed

lemma fireAll_events:
  "ev \<in> set (fst (fireAll env groups)) \<Longrightarrow> isInvokeFire ev"
  by (auto simp add: fireAll_trace)

lemma dispatch_events:
  "ev \<in> set (fst (dispatch env params plan)) \<Longrightarrow>
     ev = WriteFile (RenderMetadataKey (renderId params)) Private (MetadataBody (planMetadata plan))
     \<or> ev = WriteFileDone (RenderMetadataKey (renderId params))
     \<or> isInvokeFire ev"
  by (auto simp add: dispatch_trace fireAll_trace split: if_splits)



subsection \<open>Failure paths\<close>

lemma inner_cases:
  obtains
    (plan_failed) e where
      "innerLaunchHandler env params = ([], Inl e)"
  | (dispatch_failed) plan e where
      "innerLaunchHandler env params = (fst (dispatch env params plan), Inl e)"
  | (stitch_failed) plan e where
      "innerLaunchHandler env params =
         (fst (dispatch env params plan) @ fst (stitch env params plan), Inl e)"
  | (finalized) plan stop encodingStart where
      "innerLaunchHandler env params =
         (fst (dispatch env params plan) @ fst (stitch env params plan)
            @ fst (finalize env params plan stop encodingStart),
          snd (finalize env params plan stop encodingStart))"
proof (cases "snd (planLaunch env params)")
  case (Inl e)
  then have "innerLaunchHandler env params = ([], Inl e)"
    by (simp add: prod_eq_iff inner_trace inner_result)
  then show ?thesis by (rule plan_failed)
next
  case plan: (Inr plan)
  show ?thesis
  proof (cases "snd (dispatch env params plan)")
    case (Inl e)
    with plan have "innerLaunchHandler env params = (fst (dispatch env params plan), Inl e)"
      by (simp add: prod_eq_iff inner_trace inner_result)
    then show ?thesis by (rule dispatch_failed)
  next
    case disp: (Inr u)
    show ?thesis
    proof (cases "snd (stitch env params plan)")
      case (Inl e)
      with plan disp have "innerLaunchHandler env params =
         (fst (dispatch env params plan) @ fst (stitch env params plan), Inl e)"
        by (simp add: prod_eq_iff inner_trace inner_result)
      then show ?thesis by (rule stitch_failed)
    next
      case (Inr times)
      with plan disp have "innerLaunchHandler env params =
         (fst (dispatch env params plan) @ fst (stitch env params plan)
            @ fst (finalize env params plan (fst times) (snd times)),
          snd (finalize env params plan (fst times) (snd times)))"
        by (simp add: prod_eq_iff inner_trace inner_result split: prod.splits)
      then show ?thesis by (rule finalized)
    qed
  qed
qed

lemma dispatch_no_rm: "RmOutfile \<notin> set (fst (dispatch env params plan))"
  using dispatch_events [of RmOutfile env params plan] by auto

lemma stitch_no_rm: "RmOutfile \<notin> set (fst (stitch env params plan))"
  using progressLoop_events [of RmOutfile params "planVideo plan" initialProgress
      "observations env"]
  by (auto simp add: stitch_trace)

text \<open>
  C9, as the code has it. The removal of the merged file and the wait for the scratch
  cleanup are the last statement of the routine and stand in no \<^verbatim>\<open>finally\<close>:
  a launch that succeeds ends with the removal, both having been fulfilled, and a
  launch that fails at any earlier step never removes the merged file.
\<close>

theorem outfile_removed_at_end_of_success_only:
  "(snd (innerLaunchHandler env params) = Inr () \<longrightarrow>
      (\<exists>pre. fst (innerLaunchHandler env params) = pre @ [WritePostRenderData, RmOutfile])
      \<and> chunksCleanedUp env \<and> outfileRemoved env)
   \<and> (snd (innerLaunchHandler env params) = Inl err
        \<and> err \<noteq> Failed CleanupChunks \<and> err \<noteq> Failed RemoveOutfile \<longrightarrow>
      RmOutfile \<notin> set (fst (launchHandler env params)))"
proof (intro conjI impI)
  assume ok: "snd (innerLaunchHandler env params) = Inr ()"
  then obtain plan stop encodingStart where
    fin: "snd (finalize env params plan stop encodingStart) = Inr ()"
    and t: "fst (innerLaunchHandler env params) =
          fst (dispatch env params plan) @ fst (stitch env params plan)
          @ fst (finalize env params plan stop encodingStart)"
    by (auto simp add: inner_result inner_trace split: sum.splits prod.splits)
  show "\<exists>pre. fst (innerLaunchHandler env params) = pre @ [WritePostRenderData, RmOutfile]"
    by (simp add: t finalize_trace [OF fin])
  from fin show "chunksCleanedUp env"
    by (simp add: finalize_def split: if_splits)
  from fin show "outfileRemoved env"
    by (simp add: finalize_def split: if_splits)
next
  assume a: "snd (innerLaunchHandler env params) = Inl err
        \<and> err \<noteq> Failed CleanupChunks \<and> err \<noteq> Failed RemoveOutfile"
  have "RmOutfile \<notin> set (fst (innerLaunchHandler env params))"
  proof (cases rule: inner_cases [of env params])
    case (plan_failed e)
    then show ?thesis by simp
  next
    case (dispatch_failed plan e)
    then show ?thesis by (simp add: dispatch_no_rm)
  next
    case (stitch_failed plan e)
    then show ?thesis by (simp add: dispatch_no_rm stitch_no_rm)
  next
    case (finalized plan stop encodingStart)
    with a have "snd (finalize env params plan stop encodingStart) = Inl err"
      by simp
    with a have "RmOutfile \<notin> set (fst (finalize env params plan stop encodingStart))"
      by (simp add: finalize_no_rm)
    with finalized show ?thesis by (simp add: dispatch_no_rm stitch_no_rm)
  qed
  with a show "RmOutfile \<notin> set (fst (launchHandler env params))"
    by (auto simp add: launchHandler_trace)
qed

theorem outfile_removed_at_end_of_success_only_witness:
  "snd (innerLaunchHandler goodRun exampleParams) = Inr ()
   \<and> (\<exists>pre. fst (innerLaunchHandler goodRun exampleParams) = pre @ [WritePostRenderData, RmOutfile])
   \<and> snd (innerLaunchHandler (goodRun\<lparr>finalProgressWritten := False\<rparr>) exampleParams)
       = Inl (Failed WriteFinalProgress)
   \<and> RmOutfile \<notin> set (fst (launchHandler (goodRun\<lparr>finalProgressWritten := False\<rparr>) exampleParams))"
proof -
  have ok: "snd (innerLaunchHandler goodRun exampleParams) = Inr ()"
    by code_simp
  have bad: "snd (innerLaunchHandler (goodRun\<lparr>finalProgressWritten := False\<rparr>) exampleParams)
       = Inl (Failed WriteFinalProgress)"
    by code_simp
  from outfile_removed_at_end_of_success_only [of goodRun exampleParams] ok
  have "\<exists>pre. fst (innerLaunchHandler goodRun exampleParams) = pre @ [WritePostRenderData, RmOutfile]"
    by blast
  moreover
  from outfile_removed_at_end_of_success_only
    [of "goodRun\<lparr>finalProgressWritten := False\<rparr>" exampleParams "Failed WriteFinalProgress"] bad
  have "RmOutfile \<notin> set (fst (launchHandler (goodRun\<lparr>finalProgressWritten := False\<rparr>) exampleParams))"
    by simp
  ultimately show ?thesis using ok bad by blast
qed

text \<open>
  C9 as stated fails: when the concatenation has produced the merged file and its
  upload then fails, the launch ends with that error, the error record is written,
  and the merged file is never removed.
\<close>

theorem outfile_left_after_failed_upload:
  "concatResult (goodRun\<lparr>outputWritten := False\<rparr>) = Some 1000
   \<and> snd (innerLaunchHandler (goodRun\<lparr>outputWritten := False\<rparr>) exampleParams)
       = Inl (Failed WriteOutput)
   \<and> snd (launchHandler (goodRun\<lparr>outputWritten := False\<rparr>) exampleParams) = Inr ()
   \<and> RmOutfile \<notin> set (fst (launchHandler (goodRun\<lparr>outputWritten := False\<rparr>) exampleParams))"
  by code_simp

lemma fatalRecords_append: "fatalRecords (xs @ ys) = fatalRecords xs @ fatalRecords ys"
  by (induction xs rule: fatalRecords.induct) simp_all

lemma fatalRecords_none:
  "(\<And>info. WriteLambdaError info \<in> set evs \<Longrightarrow> \<not> isFatal info) \<Longrightarrow> fatalRecords evs = []"
  by (induction evs rule: fatalRecords.induct) auto

lemma inner_no_fatal_record: "fatalRecords (fst (innerLaunchHandler env params)) = []"
proof (rule fatalRecords_none)
  fix info
  assume "WriteLambdaError info \<in> set (fst (innerLaunchHandler env params))"
  from inner_events [OF this] show "\<not> isFatal info"
    by (auto simp add: progressErrorInfo_def)
qed

text \<open>
  C4, as the code has it. When the inner routine throws, the handler calls
  \<^verbatim>\<open>writeLambdaError\<close> once, after everything the inner routine did, with a
  record that is fatal, counts attempt 1 of 1 without retry and carries the stack of
  the error and the diagnostic of that stack; it is the only fatal record of the run.
  The call is awaited inside the \<^verbatim>\<open>catch\<close> with nothing around it: the handler
  returns normally when the record is written, and throws when that write fails.
\<close>

theorem fatal_error_recorded_once:
  assumes "routine params = launch"
    and "snd (innerLaunchHandler env params) = Inl err"
  shows "fst (launchHandler env params) =
           fst (innerLaunchHandler env params) @ [WriteLambdaError (fatalErrorInfo env err)]
         \<and> fatalRecords (fst (launchHandler env params)) = [fatalErrorInfo env err]
         \<and> isFatal (fatalErrorInfo env err)
         \<and> attempt (fatalErrorInfo env err) = 1
         \<and> totalAttempts (fatalErrorInfo env err) = 1
         \<and> \<not> willRetry (fatalErrorInfo env err)
         \<and> stack (fatalErrorInfo env err) = errorStack env err
         \<and> tmpDir (fatalErrorInfo env err) = tmpDirState env (errorStack env err)
         \<and> snd (launchHandler env params) =
             (if lambdaErrorWritten env then Inr () else Inl (Failed WriteErrorFile))"
proof -
  from assms have t: "fst (launchHandler env params) =
           fst (innerLaunchHandler env params) @ [WriteLambdaError (fatalErrorInfo env err)]"
    by (simp add: launchHandler_trace)
  have f: "isFatal (fatalErrorInfo env err)"
    by (simp add: fatalErrorInfo_def)
  from f have "fatalRecords (fst (launchHandler env params)) = [fatalErrorInfo env err]"
    by (simp add: t fatalRecords_append inner_no_fatal_record)
  moreover from assms have "snd (launchHandler env params) =
             (if lambdaErrorWritten env then Inr () else Inl (Failed WriteErrorFile))"
    by (simp add: launchHandler_result)
  ultimately show ?thesis using t
    by (simp add: fatalErrorInfo_def)
qed

theorem fatal_error_recorded_once_witness:
  "routine exampleParams = launch
   \<and> snd (innerLaunchHandler (goodRun\<lparr>concatResult := None\<rparr>) exampleParams)
       = Inl (Failed ConcatVideosS3)
   \<and> fatalRecords (fst (launchHandler (goodRun\<lparr>concatResult := None\<rparr>) exampleParams))
       = [fatalErrorInfo (goodRun\<lparr>concatResult := None\<rparr>) (Failed ConcatVideosS3)]
   \<and> snd (launchHandler (goodRun\<lparr>concatResult := None\<rparr>) exampleParams) = Inr ()"
proof -
  have r: "routine exampleParams = launch"
    by (simp add: exampleParams_def)
  have e: "snd (innerLaunchHandler (goodRun\<lparr>concatResult := None\<rparr>) exampleParams)
       = Inl (Failed ConcatVideosS3)"
    by code_simp
  have w: "lambdaErrorWritten (goodRun\<lparr>concatResult := None\<rparr>)"
    by (simp add: goodRun_def)
  from fatal_error_recorded_once [OF r e]
  have "fatalRecords (fst (launchHandler (goodRun\<lparr>concatResult := None\<rparr>) exampleParams))
       = [fatalErrorInfo (goodRun\<lparr>concatResult := None\<rparr>) (Failed ConcatVideosS3)]"
    and "snd (launchHandler (goodRun\<lparr>concatResult := None\<rparr>) exampleParams) =
           (if lambdaErrorWritten (goodRun\<lparr>concatResult := None\<rparr>) then Inr ()
            else Inl (Failed WriteErrorFile))"
    by blast+
  with w have "fatalRecords (fst (launchHandler (goodRun\<lparr>concatResult := None\<rparr>) exampleParams))
       = [fatalErrorInfo (goodRun\<lparr>concatResult := None\<rparr>) (Failed ConcatVideosS3)]"
    and "snd (launchHandler (goodRun\<lparr>concatResult := None\<rparr>) exampleParams) = Inr ()"
    by (simp_all only: if_True)
  with r e show ?thesis by blast
qed

text \<open>
  C4 as stated fails in its last part: when the inner routine throws and the write of
  the error record fails too, the handler ends with the error of that write.
\<close>

theorem error_write_failure_escapes:
  "snd (innerLaunchHandler (goodRun\<lparr>concatResult := None, lambdaErrorWritten := False\<rparr>)
          exampleParams) = Inl (Failed ConcatVideosS3)
   \<and> snd (launchHandler (goodRun\<lparr>concatResult := None, lambdaErrorWritten := False\<rparr>)
            exampleParams) = Inl (Failed WriteErrorFile)"
  by code_simp

text \<open>
  C8. A launch request with fewer than one frame per Lambda throws before anything is
  written: at 0 by the guard \<^verbatim>\<open>!params.framesPerLambda\<close> of the routine, below 0
  by \<^verbatim>\<open>validateFramesPerLambda\<close>. The trace of the inner routine is empty, and
  the only effect of the handler is the error record it writes afterwards.
\<close>

theorem frames_per_lambda_below_one_rejected:
  assumes "routine params = launch"
    and "framesPerLambda params = Some perLambda"
    and "perLambda < 1"
  shows "innerLaunchHandler env params =
           ([], Inl (if perLambda = 0 then FramesPerLambdaRequired
                     else Failed ValidateFramesPerLambda))
         \<and> fst (launchHandler env params) =
             [WriteLambdaError
                (fatalErrorInfo env (if perLambda = 0 then FramesPerLambdaRequired
                                     else Failed ValidateFramesPerLambda))]"
proof -
  from assms have "planLaunch env params =
      ([], Inl (if perLambda = 0 then FramesPerLambdaRequired
                else Failed ValidateFramesPerLambda))"
    by (simp add: planLaunch_def validateFramesPerLambda_def throw_def)
  then have "innerLaunchHandler env params =
           ([], Inl (if perLambda = 0 then FramesPerLambdaRequired
                     else Failed ValidateFramesPerLambda))"
    by (simp add: innerLaunchHandler_def)
  with assms show ?thesis
    by (simp add: launchHandler_trace)
qed

theorem frames_per_lambda_below_one_rejected_witness:
  "routine (exampleParams\<lparr>framesPerLambda := Some 0\<rparr>) = launch
   \<and> framesPerLambda (exampleParams\<lparr>framesPerLambda := Some 0\<rparr>) = Some 0
   \<and> (0 :: int) < 1
   \<and> innerLaunchHandler goodRun (exampleParams\<lparr>framesPerLambda := Some 0\<rparr>) =
       ([], Inl FramesPerLambdaRequired)
   \<and> innerLaunchHandler goodRun (exampleParams\<lparr>framesPerLambda := Some (- 5)\<rparr>) =
       ([], Inl (Failed ValidateFramesPerLambda))"
proof -
  have r: "routine (exampleParams\<lparr>framesPerLambda := Some p\<rparr>) = launch" for p
    by (simp add: exampleParams_def)
  have f: "framesPerLambda (exampleParams\<lparr>framesPerLambda := Some p\<rparr>) = Some p" for p
    by simp
  from frames_per_lambda_below_one_rejected [OF r f, of 0 goodRun]
    frames_per_lambda_below_one_rejected [OF r f, of "- 5" goodRun] r f
  show ?thesis by simp
qed

subsection \<open>The fan-out\<close>

lemma length_chunk: "length (chunk xs n) = n"
  by (induction n arbitrary: xs) (simp_all add: Let_def)

lemma chunk_Suc:
  "chunk xs (Suc k) =
     take ((length xs + k) div Suc k) xs # chunk (drop ((length xs + k) div Suc k) xs) k"
  by (simp add: Let_def)

lemma concat_chunk: "0 < n \<Longrightarrow> concat (chunk xs n) = xs"
proof (induction n arbitrary: xs)
  case 0
  then show ?case by simp
next
  case (Suc k)
  let ?size = "(length xs + k) div Suc k"
  show ?case
  proof (cases "k = 0")
    case True
    then show ?thesis by (simp add: Let_def)
  next
    case False
    with Suc.IH [of "drop ?size xs"]
    have "concat (chunk (drop ?size xs) k) = drop ?size xs"
      by simp
    then show ?thesis
      by (simp only: chunk_Suc concat.simps append_take_drop_id)
  qed
qed

lemma share_bounds:
  assumes "Suc k \<le> m"
  shows "0 < (m + k) div Suc k" and "k \<le> m - (m + k) div Suc k"
proof -
  from assms show "0 < (m + k) div Suc k"
    by (simp add: div_greater_zero_iff)
  define d where "d = m - Suc k"
  with assms have m: "m = Suc d + k"
    by simp
  have "(m + k) div Suc k \<le> (k + Suc d * Suc k) div Suc k"
    by (rule div_le_mono) (simp add: m)
  also have "\<dots> = Suc d"
    by (simp del: mult_Suc mult_Suc_right)
  finally show "k \<le> m - (m + k) div Suc k"
    by (simp add: m)
qed

lemma chunk_nonempty:
  "n \<le> length xs \<Longrightarrow> g \<in> set (chunk xs n) \<Longrightarrow> g \<noteq> []"
proof (induction n arbitrary: xs)
  case 0
  then show ?case by simp
next
  case (Suc k)
  let ?size = "(length xs + k) div Suc k"
  from Suc.prems(1) have pos: "0 < ?size" and rest: "k \<le> length xs - ?size"
    by (rule share_bounds)+
  from Suc.prems(2) consider "g = take ?size xs" | "g \<in> set (chunk (drop ?size xs) k)"
    by (auto simp only: chunk_Suc set_simps)
  then show ?case
  proof cases
    case 1
    with pos Suc.prems(1) show ?thesis by auto
  next
    case 2
    with rest Suc.IH [of "drop ?size xs"] show ?thesis by simp
  qed
qed

lemma roundSqrtFrom_least:
  "\<forall>j<k. j * j + j < n \<Longrightarrow>
   n \<le> roundSqrtFrom n k * roundSqrtFrom n k + roundSqrtFrom n k
   \<and> (\<forall>j<roundSqrtFrom n k. j * j + j < n)"
proof (induction n k rule: roundSqrtFrom.induct)
  case (1 n k)
  show ?case
  proof (cases "n \<le> k * k + k")
    case True
    then have "roundSqrtFrom n k = k"
      by (simp add: roundSqrtFrom.simps [of n k])
    with True "1.prems" show ?thesis by simp
  next
    case False
    then have r: "roundSqrtFrom n k = roundSqrtFrom n (Suc k)"
      by (simp add: roundSqrtFrom.simps [of n k])
    from False "1.prems" have "\<forall>j<Suc k. j * j + j < n"
      by (auto simp add: less_Suc_eq)
    from "1.IH" [OF False this] show ?thesis
      unfolding r .
  qed
qed

lemma invokers_upper: "n \<le> invokers n * invokers n + invokers n"
  using roundSqrtFrom_least [of 0 n] by (simp add: invokers_def)

lemma invokers_least: "j < invokers n \<Longrightarrow> j * j + j < n"
  using roundSqrtFrom_least [of 0 n] by (simp add: invokers_def)

lemma invokers_le: "invokers n \<le> n"
proof (rule ccontr)
  assume "\<not> invokers n \<le> n"
  then have "n < invokers n" by simp
  then have "n * n + n < n" by (rule invokers_least)
  then show False by simp
qed

lemma invokers_round: "int (invokers n) = round (sqrt (real n))"
proof -
  let ?r = "invokers n"
  have "real n \<le> real ?r * real ?r + real ?r"
    using invokers_upper [of n] by (metis of_nat_add of_nat_le_iff of_nat_mult)
  also have "\<dots> < (real ?r + 1 / 2)\<^sup>2"
    by (simp add: power2_eq_square algebra_simps)
  finally have up: "sqrt (real n) < real ?r + 1 / 2"
    by (intro real_less_lsqrt) simp_all
  have low: "real ?r - 1 / 2 \<le> sqrt (real n)"
  proof (cases "?r = 0")
    case True
    then have "real ?r - 1 / 2 \<le> 0" by simp
    also have "0 \<le> sqrt (real n)" by simp
    finally show ?thesis .
  next
    case False
    then have "(?r - 1) * (?r - 1) + (?r - 1) < n"
      by (intro invokers_least) simp
    then have "Suc ((?r - 1) * (?r - 1) + (?r - 1)) \<le> n"
      by simp
    then have "real (Suc ((?r - 1) * (?r - 1) + (?r - 1))) \<le> real n"
      by (simp only: of_nat_le_iff)
    moreover from False have "real (?r - 1) = real ?r - 1"
      by (simp add: of_nat_diff)
    ultimately have "(real ?r - 1) * (real ?r - 1) + (real ?r - 1) + 1 \<le> real n"
      by simp
    then have "(real ?r - 1 / 2)\<^sup>2 \<le> real n"
      by (simp add: power2_eq_square algebra_simps)
    then show ?thesis
      by (rule real_le_rsqrt)
  qed
  have "\<lfloor>sqrt (real n) + 1 / 2\<rfloor> = int ?r"
    by (rule floor_unique) (use up low in simp_all)
  then show ?thesis
    by (simp add: round_def)
qed


lemma planLaunch_plan:
  assumes "snd (planLaunch env params) = Inr plan"
  shows "planChunks plan = plannedChunks env"
    and "planInvokers plan = invokers (length (planChunks plan))"
    and "planPayloads plan = lambdaPayloads params (planVideo plan) (planChunks plan)"
    and "compositionResult env = Some (planVideo plan)"
  using assms
  by (auto simp add: planLaunch_def validateFramesPerLambda_def Let_def
      split: if_splits option.splits)

lemma firedGroups_append: "firedGroups (xs @ ys) = firedGroups xs @ firedGroups ys"
  by (induction xs rule: firedGroups.induct) simp_all

lemma firedGroups_none: "\<forall>ev \<in> set evs. \<not> isInvokeFire ev \<Longrightarrow> firedGroups evs = []"
  by (induction evs rule: firedGroups.induct) simp_all

lemma filter_fire_none:
  "\<forall>ev \<in> set evs. \<not> isInvokeFire ev \<Longrightarrow> filter isInvokeFire evs = []"
  by (induction evs) simp_all

lemma firedGroups_fire:
  "firedGroups (map (\<lambda>(index, payloads). InvokeFire index payloads) (enumerate n groups)) = groups"
  by (induction groups arbitrary: n) simp_all

lemma filter_fire_fire:
  "filter isInvokeFire (map (\<lambda>(index, payloads). InvokeFire index payloads) (enumerate n groups))
     = map (\<lambda>(index, payloads). InvokeFire index payloads) (enumerate n groups)"
  by (induction groups arbitrary: n) simp_all

lemma stitch_no_fire: "ev \<in> set (fst (stitch env params plan)) \<Longrightarrow> \<not> isInvokeFire ev"
  using progressLoop_events [of ev params "planVideo plan" initialProgress "observations env"]
  by (auto simp add: stitch_trace)

lemma finalize_no_fire:
  "ev \<in> set (fst (finalize env params plan stop encodingStart)) \<Longrightarrow> \<not> isInvokeFire ev"
  using finalize_events [of ev env params plan stop encodingStart]
  by auto

lemma launch_fires:
  assumes "snd (planLaunch env params) = Inr plan" and "renderMetadataWritten env"
  shows "firedGroups (fst (innerLaunchHandler env params)) =
           chunk (planPayloads plan) (planInvokers plan)"
    and "filter isInvokeFire (fst (innerLaunchHandler env params)) =
           map (\<lambda>(index, payloads). InvokeFire index payloads)
             (enumerate 0 (chunk (planPayloads plan) (planInvokers plan)))"
proof -
  let ?fires = "map (\<lambda>(index, payloads). InvokeFire index payloads)
             (enumerate 0 (chunk (planPayloads plan) (planInvokers plan)))"
  define rest where "rest =
     (case snd (dispatch env params plan) of
        Inl e \<Rightarrow> []
      | Inr u \<Rightarrow>
          fst (stitch env params plan) @
          (case snd (stitch env params plan) of
             Inl e \<Rightarrow> []
           | Inr (stop, encodingStart) \<Rightarrow> fst (finalize env params plan stop encodingStart)))"
  have rest: "\<forall>ev \<in> set rest. \<not> isInvokeFire ev"
    unfolding rest_def
    by (auto split: sum.splits prod.splits dest: stitch_no_fire finalize_no_fire)
  from assms have t: "fst (innerLaunchHandler env params) =
          [WriteFile (RenderMetadataKey (renderId params)) Private
             (MetadataBody (planMetadata plan)),
           WriteFileDone (RenderMetadataKey (renderId params))] @ ?fires @ rest"
    by (simp add: inner_trace dispatch_trace fireAll_trace rest_def)
  from rest show "firedGroups (fst (innerLaunchHandler env params)) =
           chunk (planPayloads plan) (planInvokers plan)"
    by (simp add: t firedGroups_append firedGroups_fire firedGroups_none)
  from rest show "filter isInvokeFire (fst (innerLaunchHandler env params)) = ?fires"
    by (simp add: t filter_fire_fire filter_fire_none)
qed

text \<open>
  C5. In a launch whose plan is made and whose render metadata is written, the
  \<^verbatim>\<open>InvokeCommand\<close>s sent are one per group, numbered from 0 in order. The number
  of groups is the square root of the number of planned chunks rounded to the nearest
  integer; laid end to end the groups are the payload list itself, which has one payload
  per planned chunk in the planned order: consecutive runs that cover every payload
  once. No group is empty when there are at least as many chunks as groups, which is
  always so.
\<close>

theorem fan_out_groups:
  assumes "snd (planLaunch env params) = Inr plan" and "renderMetadataWritten env"
  shows "filter isInvokeFire (fst (innerLaunchHandler env params)) =
           map (\<lambda>(index, payloads). InvokeFire index payloads)
             (enumerate 0 (firedGroups (fst (innerLaunchHandler env params))))
         \<and> int (length (firedGroups (fst (innerLaunchHandler env params)))) =
             round (sqrt (real (length (plannedChunks env))))
         \<and> concat (firedGroups (fst (innerLaunchHandler env params))) = planPayloads plan
         \<and> map frameRange (planPayloads plan) = map snd (plannedChunks env)
         \<and> (length (firedGroups (fst (innerLaunchHandler env params)))
               \<le> length (plannedChunks env) \<longrightarrow>
              (\<forall>g \<in> set (firedGroups (fst (innerLaunchHandler env params))). g \<noteq> []))
         \<and> length (firedGroups (fst (innerLaunchHandler env params)))
              \<le> length (plannedChunks env)"
proof -
  let ?n = "length (plannedChunks env)"
  have chunks: "planChunks plan = plannedChunks env"
    by (rule planLaunch_plan(1) [OF assms(1)])
  have payloads: "planPayloads plan = lambdaPayloads params (planVideo plan) (plannedChunks env)"
    using planLaunch_plan(3) [OF assms(1)] by (simp add: chunks)
  have len: "length (planPayloads plan) = ?n"
    by (simp add: payloads lambdaPayloads_def)
  have ranges: "map frameRange (planPayloads plan) = map snd (plannedChunks env)"
    by (simp add: payloads lambdaPayloads_def)
  have inv: "planInvokers plan = invokers ?n"
    using planLaunch_plan(2) [OF assms(1)] by (simp add: chunks)
  have groups: "firedGroups (fst (innerLaunchHandler env params)) =
      chunk (planPayloads plan) (invokers ?n)"
    using launch_fires(1) [OF assms] by (simp add: inv)
  have fires: "filter isInvokeFire (fst (innerLaunchHandler env params)) =
           map (\<lambda>(index, payloads). InvokeFire index payloads)
             (enumerate 0 (firedGroups (fst (innerLaunchHandler env params))))"
    using launch_fires(2) [OF assms] by (simp add: groups inv)
  have cat: "concat (chunk (planPayloads plan) (invokers ?n)) = planPayloads plan"
  proof (cases "invokers ?n = 0")
    case True
    with invokers_upper [of ?n] have "?n = 0" by simp
    with len True show ?thesis by simp
  next
    case False
    then show ?thesis by (simp add: concat_chunk)
  qed
  have "\<forall>g \<in> set (chunk (planPayloads plan) (invokers ?n)). g \<noteq> []"
    using chunk_nonempty [of "invokers ?n" "planPayloads plan"] invokers_le [of ?n]
    by (auto simp add: len)
  with cat fires ranges invokers_le [of ?n] show ?thesis
    by (simp add: groups length_chunk invokers_round)
qed

theorem fan_out_groups_witness:
  "(\<exists>plan. snd (planLaunch goodRun exampleParams) = Inr plan
      \<and> concat (firedGroups (fst (innerLaunchHandler goodRun exampleParams))) = planPayloads plan
      \<and> map frameRange (planPayloads plan) = [(0, 19), (20, 39), (40, 59), (60, 79), (80, 99)])
   \<and> renderMetadataWritten goodRun
   \<and> length (plannedChunks goodRun) = 5
   \<and> map length (firedGroups (fst (innerLaunchHandler goodRun exampleParams))) = [3, 2]
   \<and> length (firedGroups (fst (innerLaunchHandler goodRun exampleParams)))
        \<le> length (plannedChunks goodRun)
   \<and> [] \<notin> set (firedGroups (fst (innerLaunchHandler goodRun exampleParams)))
   \<and> length (filter isInvokeFire (fst (innerLaunchHandler goodRun exampleParams))) = 2"
proof -
  obtain plan where p: "snd (planLaunch goodRun exampleParams) = Inr plan"
    by (simp add: planLaunch_def validateFramesPerLambda_def exampleParams_def goodRun_def Let_def)
  have w: "renderMetadataWritten goodRun"
    by (simp add: goodRun_def)
  have n: "length (plannedChunks goodRun) = 5"
    by (simp add: goodRun_def)
  have r: "map snd (plannedChunks goodRun) = [(0, 19), (20, 39), (40, 59), (60, 79), (80, 99)]"
    by (simp add: goodRun_def)
  have sizes: "map length (firedGroups (fst (innerLaunchHandler goodRun exampleParams))) = [3, 2]"
    by code_simp
  then have l: "length (firedGroups (fst (innerLaunchHandler goodRun exampleParams))) = 2"
    by (metis length_map list.size(3,4) One_nat_def Suc_1 add.left_neutral plus_1_eq_Suc)
  from fan_out_groups [OF p w] n r l
  have "concat (firedGroups (fst (innerLaunchHandler goodRun exampleParams))) = planPayloads plan"
    and "map frameRange (planPayloads plan) = [(0, 19), (20, 39), (40, 59), (60, 79), (80, 99)]"
    and "[] \<notin> set (firedGroups (fst (innerLaunchHandler goodRun exampleParams)))"
    and "length (filter isInvokeFire (fst (innerLaunchHandler goodRun exampleParams))) = 2"
    by (auto simp add: length_chunk)
  with p w n sizes l show ?thesis
    by auto
qed

end
